theory Spec2Isabelle
  imports Main "HOL-Library.Sublist"
begin

section \<open>pstack-gdb: the data model of \<^verbatim>\<open>src/pstack-gdb.c\<close>\<close>

text \<open>
  The program drives a gdb subprocess over two pipes from GLib main-loop callbacks.
  Everything a callback does besides updating the \<^verbatim>\<open>App\<close> struct is recorded as a
  list of effects in the order the code performs them: bytes written to gdb's standard
  input, text printed with \<^verbatim>\<open>g_print\<close> and \<^verbatim>\<open>g_printerr\<close>, signals sent with
  \<^verbatim>\<open>kill\<close>, the request to leave the main loop and the arming of the reap timer.
\<close>

datatype State =
    STATE_START
  | STATE_ATTACH
  | STATE_CHECK_THREADS
  | STATE_BACKTRACE
  | STATE_PRINT_BACKTRACE
  | STATE_DETACH
  | STATE_DONE

datatype signal = SIGTERM | SIGKILL

datatype effect =
    Send string
  | Print string
  | PrintErr string
  | Kill signal
  | MainLoopQuit
  | TimeoutAdd nat

text \<open>
  \<^verbatim>\<open>struct _App\<close>. The two \<^verbatim>\<open>GSList\<close>s are lists read from the front; \<^verbatim>\<open>pids\<close>
  holds \<^verbatim>\<open>gint\<close>s and \<^verbatim>\<open>threads\<close> holds C strings. The handles \<^verbatim>\<open>loop\<close>,
  \<^verbatim>\<open>in\<close>, \<^verbatim>\<open>out\<close> and \<^verbatim>\<open>gdb_pid\<close> are fixed after start-up; what is done through
  them appears as effects. The counter \<^verbatim>\<open>reap_try\<close> is a \<^verbatim>\<open>gint\<close>, 32 bits wide: it
  is an \<open>int\<close> here, and the decrement in \<^verbatim>\<open>waitpid_timeout\<close> wraps around at the
  ends of that range.
\<close>

record App =
  pids :: "int list"
  threads :: "string list"
  reap_try :: int
  state :: State

text \<open>What stops a callback from returning normally.\<close>

datatype fault =
    NullDeref       \<comment> \<open>\<^verbatim>\<open>->data\<close> or \<^verbatim>\<open>->next\<close> of an empty \<^verbatim>\<open>GSList\<close>\<close>
  | ReadBlocks      \<comment> \<open>the channel has nothing more to deliver: the read does not return\<close>
  | BufferOverrun   \<comment> \<open>\<^verbatim>\<open>buffer[bytes] = 0\<close> with \<^verbatim>\<open>bytes = BUF_SIZE\<close>\<close>

definition REAP_DELAY :: nat where
  "REAP_DELAY = 1000"

definition REAP_RETRY_COUNT :: int where
  "REAP_RETRY_COUNT = 5"

definition BUF_SIZE :: nat where
  "BUF_SIZE = 1024"

section \<open>C strings\<close>

definition NUL :: char where
  "NUL = CHR 0x00"

definition LF :: char where
  "LF = CHR 0x0A"

text \<open>\<^verbatim>\<open>g_ascii_isdigit\<close>: the ten ASCII digits.\<close>

definition g_ascii_isdigit :: "char \<Rightarrow> bool" where
  "g_ascii_isdigit c = (c \<in> set ''0123456789'')"

text \<open>
  \<^verbatim>\<open>strstr (haystack, needle)\<close>: the tail of the haystack that starts at the first
  occurrence of the needle, \<open>None\<close> for the null pointer.
\<close>

fun strstr :: "string \<Rightarrow> string \<Rightarrow> string option" where
  "strstr [] needle = (if needle = [] then Some [] else None)"
| "strstr (c # cs) needle =
     (if take (length needle) (c # cs) = needle then Some (c # cs) else strstr cs needle)"

text \<open>
  \<^verbatim>\<open>strncmp (s, t, n) == 0\<close> on strings without NUL: the first \<open>n\<close> characters agree,
  where a string shorter than \<open>n\<close> must agree as a whole.
\<close>

definition strncmp_eq :: "string \<Rightarrow> string \<Rightarrow> nat \<Rightarrow> bool" where
  "strncmp_eq s t n = (take n s = take n t)"

text \<open>\<^verbatim>\<open>g_str_has_suffix\<close>.\<close>

definition g_str_has_suffix :: "string \<Rightarrow> string \<Rightarrow> bool" where
  "g_str_has_suffix str sfx =
     (length sfx \<le> length str \<and> drop (length str - length sfx) str = sfx)"

text \<open>
  \<^verbatim>\<open>g_strsplit (s, "\n", -1)\<close>: the empty string gives the empty vector, any other
  string gives one more piece than it has line feeds.
\<close>

fun pieces :: "string \<Rightarrow> string list" where
  "pieces [] = [[]]"
| "pieces (c # cs) =
     (if c = LF then [] # pieces cs
      else (case pieces cs of [] \<Rightarrow> [[c]] | p # ps \<Rightarrow> (c # p) # ps))"

definition g_strsplit :: "string \<Rightarrow> string list" where
  "g_strsplit s = (if s = [] then [] else pieces s)"

text \<open>\<^verbatim>\<open>printf ("%d")\<close> of a \<^verbatim>\<open>gint\<close>.\<close>

definition digit_char :: "nat \<Rightarrow> char" where
  "digit_char d = ''0123456789'' ! (d mod 10)"

fun decimal :: "nat \<Rightarrow> string" where
  "decimal n = (if n < 10 then [digit_char n] else decimal (n div 10) @ [digit_char n])"

declare decimal.simps [simp del]

definition format_d :: "int \<Rightarrow> string" where
  "format_d i = (if i < 0 then CHR ''-'' # decimal (nat (- i)) else decimal (nat i))"

section \<open>Thread identifiers\<close>

text \<open>
  The inner loop of \<^verbatim>\<open>get_thread_ids\<close>, from the start of the line: a digit sets
  \<^verbatim>\<open>found\<close>; the first non-digit met once \<^verbatim>\<open>found\<close> is set is overwritten with NUL
  and the loop stops. The result is the flag and the line as the C string it is
  afterwards.
\<close>

fun scan_line :: "bool \<Rightarrow> string \<Rightarrow> bool \<times> string" where
  "scan_line found [] = (found, [])"
| "scan_line found (c # cs) =
     (if g_ascii_isdigit c then (case scan_line True cs of (f, r) \<Rightarrow> (f, c # r))
      else if found then (found, [])
      else (case scan_line found cs of (f, r) \<Rightarrow> (f, c # r)))"

text \<open>
  The outer loop: lines without \<^verbatim>\<open>Thread\<close> are skipped; a scanned line with a digit is
  copied (as truncated) and \<^emph>\<open>prepended\<close> to the list. The function returns the list
  as built, and the lines are returned too, as the scan left them in the caller's
  vector.
\<close>

fun get_thread_ids_loop :: "string list \<Rightarrow> string list \<Rightarrow> string list \<times> string list" where
  "get_thread_ids_loop ths [] = (ths, [])"
| "get_thread_ids_loop ths (l # ls) =
     (case strstr l ''Thread'' of
        None \<Rightarrow> (case get_thread_ids_loop ths ls of (t, ls') \<Rightarrow> (t, l # ls'))
      | Some _ \<Rightarrow>
          (case scan_line False l of
             (found, l') \<Rightarrow>
               (case get_thread_ids_loop (if found then l' # ths else ths) ls of
                  (t, ls') \<Rightarrow> (t, l' # ls'))))"

definition get_thread_ids :: "string list \<Rightarrow> string list \<times> string list" where
  "get_thread_ids lines = get_thread_ids_loop [] lines"

section \<open>Commands\<close>

text \<open>\<^verbatim>\<open>send_command\<close>: the command and a line feed are written to gdb's input.\<close>

definition send_command :: "string \<Rightarrow> effect list" where
  "send_command command = [Send (command @ [LF])]"

text \<open>
  \<^verbatim>\<open>send_thread_backtrace\<close>: takes the front of \<^verbatim>\<open>app->threads\<close> (a null pointer
  dereference when the list is empty), unlinks it and sends the macro call for it.
\<close>

definition send_thread_backtrace :: "App \<Rightarrow> fault + (App \<times> effect list)" where
  "send_thread_backtrace app =
     (case threads app of
        [] \<Rightarrow> Inl NullDeref
      | str # rest \<Rightarrow> Inr (app\<lparr>threads := rest\<rparr>, send_command (''pstack_thread '' @ str)))"

section \<open>Framing a turn\<close>

text \<open>
  One call of \<^verbatim>\<open>g_io_channel_read_chars (channel, buffer, BUF_SIZE, &bytes, &error)\<close>
  gives a status, the bytes read and, perhaps, an error message. The channel is the list
  of the results its reads will give, in order; a read from a channel with nothing left
  to give does not return.
\<close>

datatype GIOStatus =
    G_IO_STATUS_ERROR
  | G_IO_STATUS_NORMAL
  | G_IO_STATUS_EOF
  | G_IO_STATUS_AGAIN

datatype read_result = Read GIOStatus string "string option"

type_synonym channel = "read_result list"

text \<open>
  The loop of \<^verbatim>\<open>read_lines\<close>, with \<^verbatim>\<open>buf\<close> as accumulated so far. The bytes are
  appended as a C string, so up to their first NUL. The statuses \<^verbatim>\<open>AGAIN\<close> and
  \<^verbatim>\<open>EOF\<close> share one branch that only sets \<^verbatim>\<open>done\<close>; the default branch (the error
  status) prints and sets \<^verbatim>\<open>done\<close>. The suffix test comes after the switch, whatever
  the status was. The result is the returned vector (\<open>None\<close> for the null pointer), what
  was printed, and the rest of the channel. \<^verbatim>\<open>buf\<close> is local to the call and freed
  before it returns. A read that fills all \<^verbatim>\<open>BUF_SIZE\<close> bytes of \<^verbatim>\<open>buffer\<close> makes
  \<^verbatim>\<open>buffer[bytes] = 0\<close> write one past its end.
\<close>

fun read_loop :: "string \<Rightarrow> channel \<Rightarrow> fault + (string list option \<times> effect list \<times> channel)" where
  "read_loop buf [] = Inl ReadBlocks"
| "read_loop buf (Read status bytes err # rest) =
     (if BUF_SIZE \<le> length bytes then Inl BufferOverrun
      else
        (let buf' = buf @ takeWhile (\<lambda>c. c \<noteq> NUL) bytes;
             printed =
               (case status of
                  G_IO_STATUS_ERROR \<Rightarrow>
                    (case err of
                       Some message \<Rightarrow> [PrintErr (''gdb read error: '' @ message)]
                     | None \<Rightarrow> [PrintErr ''gdb read error''])
                | _ \<Rightarrow> [])
         in if g_str_has_suffix buf' ''(gdb) ''
            then Inr (Some (butlast (g_strsplit buf')), printed, rest)
            else if status = G_IO_STATUS_NORMAL then read_loop buf' rest
            else Inr (None, printed, rest)))"

definition read_lines :: "channel \<Rightarrow> fault + (string list option \<times> effect list \<times> channel)" where
  "read_lines ch = read_loop [] ch"

definition print_lines :: "string list \<Rightarrow> effect list" where
  "print_lines lines = map (\<lambda>l. Print (l @ [LF])) lines"

section \<open>The conversation\<close>

text \<open>
  \<^verbatim>\<open>attach_ok\<close>: \<open>None\<close> when the function returns \<^verbatim>\<open>TRUE\<close>; \<open>Some l\<close> when it
  returns \<^verbatim>\<open>FALSE\<close>, with \<open>l\<close> the copy it stores in \<^verbatim>\<open>*errbuf\<close>.
\<close>

fun attach_ok :: "string list \<Rightarrow> string option" where
  "attach_ok [] = None"
| "attach_ok (l # ls) =
     (if strncmp_eq l ''ptrace:'' (length ''ptrace:'') then Some l else attach_ok ls)"

text \<open>
  The body of \<^verbatim>\<open>case STATE_DETACH\<close>, which \<^verbatim>\<open>case STATE_PRINT_BACKTRACE\<close> falls
  into when no thread is left.
\<close>

definition detach_case :: "App \<Rightarrow> fault + (App \<times> effect list)" where
  "detach_case app =
     (case pids app of
        [] \<Rightarrow> Inl NullDeref
      | _ # rest \<Rightarrow>
          Inr (app\<lparr>threads := [], pids := rest, state := STATE_ATTACH\<rparr>, send_command ''detach''))"

text \<open>
  The \<^verbatim>\<open>switch (app->state)\<close> of \<^verbatim>\<open>process_gdb_output\<close>. Besides the new
  \<^verbatim>\<open>App\<close> and the effects it gives the lines as they are when \<^verbatim>\<open>g_strfreev\<close>
  releases them.
\<close>

definition state_switch :: "string list \<Rightarrow> int \<Rightarrow> App \<Rightarrow> fault + (App \<times> effect list \<times> string list)" where
  "state_switch lines pid app =
     (case state app of
        STATE_START \<Rightarrow>
          Inr (app\<lparr>state := STATE_ATTACH\<rparr>,
               send_command (''define pstack_thread'' @ [LF] @ ''thread $arg0'' @ [LF]
                             @ ''backtrace'' @ [LF] @ ''end'' @ [LF]),
               lines)
      | STATE_ATTACH \<Rightarrow>
          Inr (app\<lparr>state := STATE_CHECK_THREADS\<rparr>, send_command (''attach '' @ format_d pid), lines)
      | STATE_CHECK_THREADS \<Rightarrow>
          (case attach_ok lines of
             None \<Rightarrow> Inr (app\<lparr>state := STATE_BACKTRACE\<rparr>, send_command ''info threads'', lines)
           | Some buf \<Rightarrow>
               (case pids app of
                  [] \<Rightarrow> Inl NullDeref
                | _ # rest \<Rightarrow>
                    Inr (app\<lparr>pids := rest, state := STATE_ATTACH\<rparr>,
                         PrintErr (''Skipping pid '' @ format_d pid @ '': '' @ buf @ [LF])
                           # send_command ''p 0'',
                         lines)))
      | STATE_BACKTRACE \<Rightarrow>
          (let header = Print (''Backtrace for pid '' @ format_d pid @ [LF])
           in case lines of
                [] \<Rightarrow> Inr (app\<lparr>state := STATE_PRINT_BACKTRACE\<rparr>, header # send_command ''backtrace'', lines)
              | _ # _ \<Rightarrow>
                  (case get_thread_ids lines of
                     (ths, lines') \<Rightarrow>
                       (case ths of
                          [] \<Rightarrow> Inr (app\<lparr>threads := ths, state := STATE_DETACH\<rparr>, [header], lines')
                        | _ # _ \<Rightarrow>
                            (case send_thread_backtrace (app\<lparr>threads := ths\<rparr>) of
                               Inl f \<Rightarrow> Inl f
                             | Inr (app', sent) \<Rightarrow>
                                 Inr (app'\<lparr>state := STATE_PRINT_BACKTRACE\<rparr>, header # sent, lines')))))
      | STATE_PRINT_BACKTRACE \<Rightarrow>
          (case threads app of
             _ # _ \<Rightarrow>
               (case send_thread_backtrace app of
                  Inl f \<Rightarrow> Inl f
                | Inr (app', sent) \<Rightarrow>
                    Inr (app'\<lparr>state := STATE_PRINT_BACKTRACE\<rparr>, print_lines lines @ sent, lines))
           | [] \<Rightarrow>
               (case detach_case app of
                  Inl f \<Rightarrow> Inl f
                | Inr (app', sent) \<Rightarrow> Inr (app', print_lines lines @ sent, lines)))
      | STATE_DETACH \<Rightarrow>
          (case detach_case app of
             Inl f \<Rightarrow> Inl f
           | Inr (app', sent) \<Rightarrow> Inr (app', sent, lines))
      | STATE_DONE \<Rightarrow> Inr (app, send_command ''quit'', lines))"

datatype GIOCondition = G_IO_IN | G_IO_OUT | G_IO_PRI | G_IO_ERR | G_IO_HUP | G_IO_NVAL

text \<open>
  \<^verbatim>\<open>process_gdb_output\<close>, the watch on gdb's output. The result is the returned
  \<^verbatim>\<open>gboolean\<close> (\<^verbatim>\<open>FALSE\<close> makes GLib remove the watch), the new \<^verbatim>\<open>App\<close>, the
  effects and the rest of the channel. An empty pid list sets the state to
  \<^verbatim>\<open>STATE_DONE\<close> before anything is read.
\<close>

definition process_gdb_output ::
    "GIOCondition set \<Rightarrow> channel \<Rightarrow> App \<Rightarrow> fault + (bool \<times> App \<times> effect list \<times> channel)" where
  "process_gdb_output condition ch app =
     (if G_IO_ERR \<in> condition \<or> G_IO_HUP \<in> condition then Inr (False, app, [], ch)
      else
        (case (case pids app of
                 p # _ \<Rightarrow> (p, app)
               | [] \<Rightarrow> (- 1, app\<lparr>state := STATE_DONE\<rparr>)) of
           (pid, app1) \<Rightarrow>
             (case read_lines ch of
                Inl f \<Rightarrow> Inl f
              | Inr (None, printed, ch') \<Rightarrow> Inr (False, app1, printed, ch')
              | Inr (Some lines, printed, ch') \<Rightarrow>
                  (case state_switch lines pid app1 of
                     Inl f \<Rightarrow> Inl f
                   | Inr (app2, effs, _) \<Rightarrow> Inr (True, app2, printed @ effs, ch')))))"

text \<open>
  The main loop dispatching the watch: one call per readiness event, each with the
  condition GLib reports, until the callback returns \<^verbatim>\<open>FALSE\<close> or does not return.
\<close>

datatype outcome = Watching | Removed | Faulted fault

fun session :: "GIOCondition set list \<Rightarrow> channel \<Rightarrow> App \<Rightarrow> outcome \<times> App \<times> effect list" where
  "session [] ch app = (Watching, app, [])"
| "session (c # cs) ch app =
     (case process_gdb_output c ch app of
        Inl f \<Rightarrow> (Faulted f, app, [])
      | Inr (False, app', effs, ch') \<Rightarrow> (Removed, app', effs)
      | Inr (True, app', effs, ch') \<Rightarrow>
          (case session cs ch' app' of (out, app'', effs') \<Rightarrow> (out, app'', effs @ effs')))"

section \<open>The pid list\<close>

definition G_MAXINT :: int where
  "G_MAXINT = 2147483647"

text \<open>
  A value as a \<^verbatim>\<open>gint\<close> holds it: the low 32 bits, read as two's complement. This is
  the conversion of the \<^verbatim>\<open>unsigned long\<close> that \<^verbatim>\<open>strtoul\<close> returns, and what
  arithmetic on a \<^verbatim>\<open>gint\<close> gives on the compiled program when the result leaves the
  range (the C standard itself leaves signed overflow undefined).
\<close>

definition to_gint :: "int \<Rightarrow> int" where
  "to_gint v = (v + 2 ^ 31) mod 2 ^ 32 - 2 ^ 31"

text \<open>
  \<^verbatim>\<open>strtoul\<close> belongs to the C library, so \<^verbatim>\<open>get_pid_list\<close> takes it as a
  parameter: for an argument it gives the value (an \<^verbatim>\<open>unsigned long\<close>, as a non-negative
  \<open>int\<close>), the text that \<^verbatim>\<open>endptr\<close> points to,
  and the value stored in \<^verbatim>\<open>errno\<close> if it stores one. \<^verbatim>\<open>errno\<close> is never cleared
  by the program, so its value on entry is a parameter too.
\<close>

type_synonym strtoul_fn = "string \<Rightarrow> int \<times> string \<times> int option"

fun get_pid_list_loop :: "strtoul_fn \<Rightarrow> int \<Rightarrow> int list \<Rightarrow> string list \<Rightarrow> int list \<times> effect list" where
  "get_pid_list_loop strtoul errno acc [] = (rev acc, [])"
| "get_pid_list_loop strtoul errno acc (arg # args) =
     (case strtoul arg of
        (v, endptr, stored) \<Rightarrow>
          (let pid = to_gint v;
               errno' = (case stored of None \<Rightarrow> errno | Some e \<Rightarrow> e)
           in if endptr \<noteq> [] \<or> pid \<le> 0 \<or> pid > G_MAXINT \<or> errno' \<noteq> 0
              then ([], [PrintErr (''Invalid pid: '' @ arg @ [LF, LF])])
              else get_pid_list_loop strtoul errno' (pid # acc) args))"

text \<open>The result is the \<^verbatim>\<open>GSList\<close>; the null pointer is the empty list.\<close>

definition get_pid_list :: "strtoul_fn \<Rightarrow> int \<Rightarrow> string list \<Rightarrow> int list \<times> effect list" where
  "get_pid_list strtoul errno argv =
     (if length argv < 2 then ([], [PrintErr (''No valid pids given'' @ [LF, LF])])
      else get_pid_list_loop strtoul errno [] (drop 1 argv))"

text \<open>
  The \<^verbatim>\<open>App\<close> that \<^verbatim>\<open>main\<close> hands to the main loop: zeroed by \<^verbatim>\<open>g_new0\<close>, then
  given the pid list and \<^verbatim>\<open>STATE_START\<close>.
\<close>

definition main_app :: "int list \<Rightarrow> App" where
  "main_app ps = \<lparr>pids = ps, threads = [], reap_try = 0, state = STATE_START\<rparr>"

text \<open>
  A \<^verbatim>\<open>strtoul\<close> for base 10 as the C standard describes it, with a 64-bit
  \<^verbatim>\<open>unsigned long\<close>: white space, an optional sign, digits; without digits nothing is
  consumed; a value out of range gives \<^verbatim>\<open>ULONG_MAX\<close> and \<^verbatim>\<open>ERANGE\<close>.
\<close>

definition isspace :: "char \<Rightarrow> bool" where
  "isspace c = (c \<in> set [CHR '' '', CHR 0x09, CHR 0x0A, CHR 0x0B, CHR 0x0C, CHR 0x0D])"

fun digits_value :: "int \<Rightarrow> string \<Rightarrow> int \<times> string" where
  "digits_value v [] = (v, [])"
| "digits_value v (c # cs) =
     (if g_ascii_isdigit c then digits_value (10 * v + (of_char c - 48)) cs else (v, c # cs))"

definition ERANGE :: int where
  "ERANGE = 34"

definition strtoul10 :: strtoul_fn where
  "strtoul10 s =
     (let s1 = dropWhile isspace s;
          neg = (case s1 of c # _ \<Rightarrow> c = CHR ''-'' | [] \<Rightarrow> False);
          s2 = (case s1 of c # r \<Rightarrow> (if c = CHR ''-'' \<or> c = CHR ''+'' then r else s1) | [] \<Rightarrow> s1)
      in case s2 of
           [] \<Rightarrow> (0, s, None)
         | c # _ \<Rightarrow>
             (if \<not> g_ascii_isdigit c then (0, s, None)
              else (case digits_value 0 s2 of
                      (v, rest) \<Rightarrow>
                        (if v \<ge> 2 ^ 64 then (2 ^ 64 - 1, rest, Some ERANGE)
                         else ((if neg then (2 ^ 64 - v) mod 2 ^ 64 else v), rest, None)))))"

section \<open>Reaping gdb\<close>

text \<open>What \<^verbatim>\<open>waitpid (app->gdb_pid, &status, WNOHANG)\<close> returns: -1, 0, or the pid.\<close>

datatype waitpid_result = WaitFailed | StillRunning | Exited

text \<open>
  \<^verbatim>\<open>waitpid_timeout\<close>: the returned \<^verbatim>\<open>gboolean\<close> (\<^verbatim>\<open>TRUE\<close> keeps the timer), the
  new \<^verbatim>\<open>App\<close> and the effects. \<^verbatim>\<open>app->reap_try--\<close> is a decrement of a
  \<^verbatim>\<open>gint\<close>: below \<^verbatim>\<open>INT_MIN\<close> it wraps to \<^verbatim>\<open>INT_MAX\<close>.
\<close>

definition waitpid_timeout :: "waitpid_result \<Rightarrow> App \<Rightarrow> bool \<times> App \<times> effect list" where
  "waitpid_timeout w app =
     (let app1 = app\<lparr>reap_try := to_gint (reap_try app - 1)\<rparr>
      in case w of
           WaitFailed \<Rightarrow> (False, app1, [MainLoopQuit])
         | StillRunning \<Rightarrow>
             (True, app1,
              if reap_try app1 = 0 then [Kill SIGTERM]
              else if reap_try app1 < 0 then [Kill SIGKILL]
              else [])
         | Exited \<Rightarrow> (False, app1, [MainLoopQuit]))"

text \<open>
  \<^verbatim>\<open>reap_gdb\<close>, the watch on gdb's input, with the result of the poll it makes. It
  always returns \<^verbatim>\<open>FALSE\<close>.
\<close>

definition reap_gdb :: "waitpid_result \<Rightarrow> App \<Rightarrow> bool \<times> App \<times> effect list" where
  "reap_gdb w app =
     (let warned = (if state app \<noteq> STATE_DONE then [PrintErr (''gdb unexpectedly died!'' @ [LF])] else [])
      in case waitpid_timeout w (app\<lparr>reap_try := REAP_RETRY_COUNT\<rparr>) of
           (True, app', effs) \<Rightarrow> (False, app', warned @ effs @ [TimeoutAdd REAP_DELAY])
         | (False, app', effs) \<Rightarrow> (False, app', warned @ effs))"

text \<open>
  The timer armed by \<^verbatim>\<open>g_timeout_add\<close>: GLib calls \<^verbatim>\<open>waitpid_timeout\<close> at every
  expiry for as long as it returns \<^verbatim>\<open>TRUE\<close>. The list holds what the successive polls
  find.
\<close>

fun timer_ticks :: "waitpid_result list \<Rightarrow> App \<Rightarrow> App \<times> effect list" where
  "timer_ticks [] app = (app, [])"
| "timer_ticks (w # ws) app =
     (case waitpid_timeout w app of
        (True, app', effs) \<Rightarrow> (case timer_ticks ws app' of (app'', effs') \<Rightarrow> (app'', effs @ effs'))
      | (False, app', effs) \<Rightarrow> (app', effs))"

text \<open>The whole reap: \<^verbatim>\<open>reap_gdb\<close> with its poll, then the timer if it was armed.\<close>

definition reap :: "waitpid_result \<Rightarrow> waitpid_result list \<Rightarrow> App \<Rightarrow> App \<times> effect list" where
  "reap w ws app =
     (case reap_gdb w app of
        (_, app', effs) \<Rightarrow>
          (if TimeoutAdd REAP_DELAY \<in> set effs
           then (case timer_ticks ws app' of (app'', effs') \<Rightarrow> (app'', effs @ effs'))
           else (app', effs)))"

text \<open>The signals among the effects, in order.\<close>

fun signals :: "effect list \<Rightarrow> signal list" where
  "signals [] = []"
| "signals (Kill s # es) = s # signals es"
| "signals (_ # es) = signals es"

text \<open>The commands written to gdb among the effects, in order.\<close>

fun sent :: "effect list \<Rightarrow> string list" where
  "sent [] = []"
| "sent (Send c # es) = c # sent es"
| "sent (_ # es) = sent es"

section \<open>Observing a session\<close>

text \<open>
  Three readings of the effects of a session, and the invariant that ties them to the
  pid queue. The attach commands are the commands that begin with \<^verbatim>\<open>attach \<close>. A
  completed attach attempt shows as the command that ends it: \<^verbatim>\<open>detach\<close> after a
  successful attach, the flush command \<^verbatim>\<open>p 0\<close> after a failed one. A target is in
  hand in the four states between the sending of \<^verbatim>\<open>attach\<close> and the end of the
  attempt.
\<close>

definition attach_commands :: "effect list \<Rightarrow> string list" where
  "attach_commands effs = filter (prefix ''attach '') (sent effs)"

definition completed_attempts :: "effect list \<Rightarrow> nat" where
  "completed_attempts effs =
     length (filter (\<lambda>c. c = ''detach'' @ [LF] \<or> c = ''p 0'' @ [LF]) (sent effs))"

definition in_hand :: "State \<Rightarrow> bool" where
  "in_hand s =
     (s = STATE_CHECK_THREADS \<or> s = STATE_BACKTRACE \<or> s = STATE_PRINT_BACKTRACE \<or> s = STATE_DETACH)"

text \<open>
  After \<open>j\<close> completed attempts the queue is the original list \<open>ps\<close> without its first
  \<open>j\<close> elements, and the attach commands sent so far are those of the first \<open>j\<close>
  targets, in order, and of target \<open>j + 1\<close> when it is in hand.
\<close>

definition visiting :: "int list \<Rightarrow> App \<Rightarrow> effect list \<Rightarrow> bool" where
  "visiting ps app effs =
     (let j = completed_attempts effs
      in j \<le> length ps \<and> pids app = drop j ps
         \<and> (if in_hand (state app)
             then j < length ps
                  \<and> attach_commands effs =
                      map (\<lambda>p. ''attach '' @ format_d p @ [LF]) (take (Suc j) ps)
             else attach_commands effs =
                      map (\<lambda>p. ''attach '' @ format_d p @ [LF]) (take j ps)))"

text \<open>
  The bytes gdb writes for a turn with the given lines: each line with its line feed,
  then the prompt. Such a turn arrives whole in one read when it is shorter than
  \<^verbatim>\<open>BUF_SIZE\<close>; its lines hold neither a line feed nor a NUL.
\<close>

definition turn_bytes :: "string list \<Rightarrow> string" where
  "turn_bytes ls = concat (map (\<lambda>l. l @ [LF]) ls) @ ''(gdb) ''"

definition one_read :: "string list \<Rightarrow> bool" where
  "one_read ls =
     ((\<forall>l\<in>set ls. LF \<notin> set l \<and> NUL \<notin> set l) \<and> length (turn_bytes ls) < BUF_SIZE)"

section \<open>The reap supervisor\<close>

lemma signals_append: "signals (xs @ ys) = signals xs @ signals ys"
  by (induction xs rule: signals.induct) simp_all

lemma sent_append: "sent (xs @ ys) = sent xs @ sent ys"
  by (induction xs rule: sent.induct) simp_all

lemma to_gint_in_range: "- (2 ^ 31) \<le> x \<Longrightarrow> x < 2 ^ 31 \<Longrightarrow> to_gint x = x"
  by (simp add: to_gint_def)

lemma timer_ticks_step:
  "snd (timer_ticks (StillRunning # ws) app) =
     snd (snd (waitpid_timeout StillRunning app))
       @ snd (timer_ticks ws (app\<lparr>reap_try := to_gint (reap_try app - 1)\<rparr>))"
  by (simp add: waitpid_timeout_def Let_def split: prod.splits)

text \<open>
  The signals of \<open>n\<close> ticks that all find gdb running, from any value of the counter
  that these ticks do not take below \<^verbatim>\<open>INT_MIN\<close>: nothing while the counter stays
  positive, \<^verbatim>\<open>SIGTERM\<close> at the tick that brings it to zero, \<^verbatim>\<open>SIGKILL\<close> at every
  tick below zero.
\<close>

lemma timer_ticks_running:
  assumes "- (2 ^ 31) \<le> reap_try app - int n" and "reap_try app < 2 ^ 31"
  shows "signals (snd (timer_ticks (replicate n StillRunning) app)) =
     (if reap_try app \<le> 0 then replicate n SIGKILL
      else if int n < reap_try app then []
      else SIGTERM # replicate (n - nat (reap_try app)) SIGKILL)"
  using assms
proof (induction n arbitrary: app)
  case 0
  then show ?case by simp
next
  case (Suc n)
  from Suc.prems have dec: "to_gint (reap_try app - 1) = reap_try app - 1"
    by (intro to_gint_in_range) simp_all
  let ?app1 = "app\<lparr>reap_try := reap_try app - 1\<rparr>"
  have step: "signals (snd (timer_ticks (replicate (Suc n) StillRunning) app)) =
      signals (snd (snd (waitpid_timeout StillRunning app)))
        @ signals (snd (timer_ticks (replicate n StillRunning) ?app1))"
    by (simp add: waitpid_timeout_def Let_def signals_append dec split: prod.splits)
  have r: "reap_try ?app1 = reap_try app - 1" by simp
  from Suc.prems have "- (2 ^ 31) \<le> reap_try ?app1 - int n" "reap_try ?app1 < 2 ^ 31"
    by simp_all
  from Suc.IH [OF this] step r show ?case
    by (auto simp: waitpid_timeout_def Let_def dec Suc_diff_le nat_diff_distrib'
        replicate_append_same)
qed

lemma timer_ticks_exit:
  "snd (timer_ticks (replicate k StillRunning @ Exited # ws) app) =
     snd (timer_ticks (replicate k StillRunning) app) @ [MainLoopQuit]"
proof (induction k arbitrary: app)
  case 0
  show ?case by (simp add: waitpid_timeout_def Let_def)
next
  case (Suc k)
  show ?case
    using Suc.IH [of "app\<lparr>reap_try := to_gint (reap_try app - 1)\<rparr>"]
    by (simp only: replicate_Suc append_Cons timer_ticks_step append_assoc)
qed

lemma reap_running_unfold:
  "snd (reap StillRunning ws app) =
     (if state app \<noteq> STATE_DONE then [PrintErr (''gdb unexpectedly died!'' @ [LF])] else [])
       @ [TimeoutAdd REAP_DELAY] @ snd (timer_ticks ws (app\<lparr>reap_try := REAP_RETRY_COUNT - 1\<rparr>))"
  by (simp add: reap_def reap_gdb_def waitpid_timeout_def Let_def REAP_RETRY_COUNT_def
      to_gint_def split: prod.splits)

text \<open>
  C5, as the claim states it: a gdb that never exits gets \<^verbatim>\<open>SIGKILL\<close> exactly once
  and no signal at any later poll. Seven polls that all find gdb running refute it:
  the sixth and the seventh poll both send \<^verbatim>\<open>SIGKILL\<close>, since the test is
  \<^verbatim>\<open>reap_try < 0\<close> and the counter keeps falling.
\<close>

theorem sigkill_repeats_counterexample:
  "signals (snd (reap StillRunning [StillRunning, StillRunning, StillRunning, StillRunning,
      StillRunning, StillRunning] (main_app [1]))) = [SIGTERM, SIGKILL, SIGKILL]"
  by (simp add: reap_def reap_gdb_def waitpid_timeout_def REAP_RETRY_COUNT_def REAP_DELAY_def
      main_app_def to_gint_def)

text \<open>
  C5, amended. The reap makes one poll in \<^verbatim>\<open>reap_gdb\<close> and one per timer tick. When
  all of \<open>n + 1\<close> polls find gdb running, and \<open>n + 1\<close> is at most
  \<^verbatim>\<open>REAP_RETRY_COUNT\<close> + 2^31 (so that the 32-bit counter has not gone below
  \<^verbatim>\<open>INT_MIN\<close>), no signal is sent while fewer than \<^verbatim>\<open>REAP_RETRY_COUNT\<close> polls were
  made; the poll numbered \<^verbatim>\<open>REAP_RETRY_COUNT\<close> sends \<^verbatim>\<open>SIGTERM\<close>, once; and every
  later poll sends \<^verbatim>\<open>SIGKILL\<close>, one per poll. The poll after that bound finds the
  counter at \<^verbatim>\<open>INT_MIN\<close>: the decrement wraps to \<^verbatim>\<open>INT_MAX\<close> and that poll sends
  nothing. A poll that finds gdb exited, after any number of polls that did not, adds
  only the request to leave the main loop: whatever later polls would find, nothing
  follows it. A first poll that finds gdb exited sends no signal.
\<close>

theorem reap_escalation:
  assumes "int (Suc n) \<le> REAP_RETRY_COUNT + 2 ^ 31"
  shows "signals (snd (reap StillRunning (replicate n StillRunning) app)) =
     (if int (Suc n) < REAP_RETRY_COUNT then []
      else SIGTERM # replicate (Suc n - nat REAP_RETRY_COUNT) SIGKILL)
   \<and> waitpid_timeout StillRunning (app\<lparr>reap_try := - (2 ^ 31)\<rparr>) =
       (True, app\<lparr>reap_try := 2 ^ 31 - 1\<rparr>, [])
   \<and> snd (reap StillRunning (replicate k StillRunning @ Exited # ws) app) =
       snd (reap StillRunning (replicate k StillRunning) app) @ [MainLoopQuit]
   \<and> signals (snd (reap Exited ws app)) = []"
proof (intro conjI)
  let ?app1 = "app\<lparr>reap_try := REAP_RETRY_COUNT - 1\<rparr>"
  from assms have "- (2 ^ 31) \<le> reap_try ?app1 - int n" "reap_try ?app1 < 2 ^ 31"
    by (simp_all add: REAP_RETRY_COUNT_def)
  from timer_ticks_running [OF this]
  show "signals (snd (reap StillRunning (replicate n StillRunning) app)) =
     (if int (Suc n) < REAP_RETRY_COUNT then []
      else SIGTERM # replicate (Suc n - nat REAP_RETRY_COUNT) SIGKILL)"
    by (simp add: reap_running_unfold signals_append REAP_RETRY_COUNT_def)
  show "waitpid_timeout StillRunning (app\<lparr>reap_try := - (2 ^ 31)\<rparr>) =
       (True, app\<lparr>reap_try := 2 ^ 31 - 1\<rparr>, [])"
    by (simp add: waitpid_timeout_def to_gint_def)
  show "snd (reap StillRunning (replicate k StillRunning @ Exited # ws) app) =
       snd (reap StillRunning (replicate k StillRunning) app) @ [MainLoopQuit]"
    by (simp add: reap_running_unfold timer_ticks_exit)
  show "signals (snd (reap Exited ws app)) = []"
    by (simp add: reap_def reap_gdb_def waitpid_timeout_def Let_def REAP_DELAY_def)
qed

theorem reap_escalation_witness:
  "int (Suc 6) \<le> REAP_RETRY_COUNT + 2 ^ 31
   \<and> signals (snd (reap StillRunning (replicate 6 StillRunning) (main_app [1]))) =
       [SIGTERM, SIGKILL, SIGKILL]
   \<and> snd (reap StillRunning (replicate 2 StillRunning @ [Exited, StillRunning]) (main_app [1])) =
       snd (reap StillRunning (replicate 2 StillRunning) (main_app [1])) @ [MainLoopQuit]"
proof -
  have h: "int (Suc 6) \<le> REAP_RETRY_COUNT + 2 ^ 31" by (simp add: REAP_RETRY_COUNT_def)
  from reap_escalation [OF h, of "main_app [1]" 2 "[StillRunning]"] h show ?thesis
    by (simp add: REAP_RETRY_COUNT_def eval_nat_numeral)
qed

text \<open>
  C10. When the poll itself fails, \<^verbatim>\<open>waitpid_timeout\<close> asks the main loop to quit and
  returns \<^verbatim>\<open>FALSE\<close>, sending no signal whatever the counter is; as a timer tick it
  ends the timer, so that no later poll is made; and as the poll of \<^verbatim>\<open>reap_gdb\<close> it
  leaves the timer unarmed, the effects being the warning (outside \<^verbatim>\<open>STATE_DONE\<close>)
  and the request to quit.
\<close>

theorem waitpid_failure_quits:
  "waitpid_timeout WaitFailed app =
     (False, app\<lparr>reap_try := to_gint (reap_try app - 1)\<rparr>, [MainLoopQuit])
   \<and> timer_ticks (WaitFailed # ws) app =
       (app\<lparr>reap_try := to_gint (reap_try app - 1)\<rparr>, [MainLoopQuit])
   \<and> snd (reap WaitFailed ws app) =
       (if state app \<noteq> STATE_DONE then [PrintErr (''gdb unexpectedly died!'' @ [LF])] else [])
         @ [MainLoopQuit]"
  by (simp add: waitpid_timeout_def reap_def reap_gdb_def Let_def)

theorem waitpid_failure_quits_witness:
  "timer_ticks [WaitFailed, StillRunning] (main_app [1]\<lparr>reap_try := - 3\<rparr>) =
     (main_app [1]\<lparr>reap_try := - 4\<rparr>, [MainLoopQuit])
   \<and> snd (reap WaitFailed [StillRunning] (main_app [1])) =
       [PrintErr (''gdb unexpectedly died!'' @ [LF]), MainLoopQuit]"
  using waitpid_failure_quits [of "main_app [1]\<lparr>reap_try := - 3\<rparr>" "[StillRunning]"]
    waitpid_failure_quits [of "main_app [1]" "[StillRunning]"]
  by (simp add: main_app_def to_gint_def)

section \<open>The framer\<close>

lemma read_loop_zero:
  assumes "\<not> g_str_has_suffix buf ''(gdb) ''"
  shows "read_loop buf (Read status [] err # rest) =
     (case status of
        G_IO_STATUS_NORMAL \<Rightarrow> read_loop buf rest
      | G_IO_STATUS_ERROR \<Rightarrow>
          Inr (None, [PrintErr (case err of Some message \<Rightarrow> ''gdb read error: '' @ message
                                 | None \<Rightarrow> ''gdb read error'')], rest)
      | _ \<Rightarrow> Inr (None, [], rest))"
  using assms by (cases status; cases err) (simp_all add: BUF_SIZE_def)

lemma process_pending:
  assumes "G_IO_ERR \<notin> condition" and "G_IO_HUP \<notin> condition"
    and "read_lines ch = Inr (None, printed, ch')"
  shows "process_gdb_output condition ch app =
     Inr (False, (case pids app of [] \<Rightarrow> app\<lparr>state := STATE_DONE\<rparr> | _ # _ \<Rightarrow> app), printed, ch')"
  using assms by (simp add: process_gdb_output_def split: list.splits)

lemma read_loop_normal:
  assumes "length c < BUF_SIZE" and "NUL \<notin> set c"
  shows "read_loop buf (Read G_IO_STATUS_NORMAL c None # rest) =
     (if g_str_has_suffix (buf @ c) ''(gdb) ''
      then Inr (Some (butlast (g_strsplit (buf @ c))), [], rest)
      else read_loop (buf @ c) rest)"
proof -
  have tw: "takeWhile (\<lambda>x. x \<noteq> NUL) c = c"
    by (rule takeWhile_eq_all_conv [THEN iffD2]) (use assms(2) in auto)
  show ?thesis using assms(1) by (simp add: Let_def tw)
qed

lemma read_loop_chunks:
  assumes "\<forall>c\<in>set chunks. length c < BUF_SIZE \<and> NUL \<notin> set c"
    and "chunks \<noteq> []"
    and "g_str_has_suffix (buf @ concat chunks) ''(gdb) ''"
    and "\<forall>k. 0 < k \<and> k < length chunks \<longrightarrow>
           \<not> g_str_has_suffix (buf @ concat (take k chunks)) ''(gdb) ''"
  shows "read_loop buf (map (\<lambda>c. Read G_IO_STATUS_NORMAL c None) chunks @ rest) =
     Inr (Some (butlast (g_strsplit (buf @ concat chunks))), [], rest)"
  using assms
proof (induction chunks arbitrary: buf)
  case Nil
  then show ?case by simp
next
  case (Cons c cs)
  from Cons.prems(1) have c: "length c < BUF_SIZE" "NUL \<notin> set c" by simp_all
  show ?case
  proof (cases "cs = []")
    case True
    with Cons.prems(3) show ?thesis by (simp add: read_loop_normal [OF c] del: read_loop.simps)
  next
    case False
    then have "0 < (1::nat) \<and> 1 < length (c # cs)" by (cases cs) simp_all
    with Cons.prems(4) have "\<not> g_str_has_suffix (buf @ concat (take 1 (c # cs))) ''(gdb) ''"
      by blast
    then have early: "\<not> g_str_has_suffix (buf @ c) ''(gdb) ''" by simp
    have later: "\<forall>k. 0 < k \<and> k < length cs \<longrightarrow>
           \<not> g_str_has_suffix ((buf @ c) @ concat (take k cs)) ''(gdb) ''"
    proof (intro allI impI)
      fix k assume "0 < k \<and> k < length cs"
      then have "0 < Suc k \<and> Suc k < length (c # cs)" by simp
      with Cons.prems(4) have "\<not> g_str_has_suffix (buf @ concat (take (Suc k) (c # cs))) ''(gdb) ''"
        by blast
      then show "\<not> g_str_has_suffix ((buf @ c) @ concat (take k cs)) ''(gdb) ''" by simp
    qed
    from Cons.prems(1) have all: "\<forall>c\<in>set cs. length c < BUF_SIZE \<and> NUL \<notin> set c" by simp
    from Cons.prems(3) have sfx: "g_str_has_suffix ((buf @ c) @ concat cs) ''(gdb) ''" by simp
    from Cons.IH [OF all False sfx later] early show ?thesis
      by (simp add: read_loop_normal [OF c] del: read_loop.simps)
  qed
qed

lemma pieces_line: "LF \<notin> set l \<Longrightarrow> pieces (l @ LF # r) = l # pieces r"
  by (induction l) auto

lemma pieces_last: "LF \<notin> set t \<Longrightarrow> pieces t = [t]"
  by (induction t) auto

lemma pieces_lines:
  "\<forall>l\<in>set ls. LF \<notin> set l \<Longrightarrow> LF \<notin> set t \<Longrightarrow>
     pieces (concat (map (\<lambda>l. l @ [LF]) ls) @ t) = ls @ [t]"
  by (induction ls) (simp_all add: pieces_line pieces_last)

text \<open>
  What the split gives for a turn of gdb: when the content is lines, each closed by a
  line feed, followed by the prompt, the vector without its last element is those lines.
\<close>

lemma g_strsplit_lines:
  assumes "\<forall>l\<in>set ls. LF \<notin> set l"
  shows "butlast (g_strsplit (concat (map (\<lambda>l. l @ [LF]) ls) @ ''(gdb) '')) = ls"
proof -
  have "LF \<notin> set ''(gdb) ''" by (simp add: LF_def)
  with assms have "pieces (concat (map (\<lambda>l. l @ [LF]) ls) @ ''(gdb) '') = ls @ [''(gdb) '']"
    by (rule pieces_lines)
  then show ?thesis by (simp add: g_strsplit_def)
qed

text \<open>
  C8, as the claim states it: a read of zero bytes at end of file is a terminal read
  error that is reported, while one on an open stream is \<open>Pending\<close>. The code has one
  branch for both statuses: at end of file \<^verbatim>\<open>read_lines\<close> returns the null pointer
  and prints nothing, exactly as for \<^verbatim>\<open>G_IO_STATUS_AGAIN\<close>, and the watch then
  returns \<^verbatim>\<open>FALSE\<close> without any report.
\<close>

theorem eof_is_silent_counterexample:
  "read_lines [Read G_IO_STATUS_EOF [] None] = Inr (None, [], [])
   \<and> read_lines [Read G_IO_STATUS_AGAIN [] None] = Inr (None, [], [])
   \<and> process_gdb_output {G_IO_IN} [Read G_IO_STATUS_EOF [] None]
        \<lparr>pids = [111], threads = [], reap_try = 0, state = STATE_CHECK_THREADS\<rparr> =
      Inr (False, \<lparr>pids = [111], threads = [], reap_try = 0, state = STATE_CHECK_THREADS\<rparr>, [], [])"
  by code_simp

text \<open>
  C8, amended. A read of zero bytes, with a buffer that does not end in the prompt,
  ends \<^verbatim>\<open>read_lines\<close> with the null pointer for each of the statuses
  \<^verbatim>\<open>G_IO_STATUS_AGAIN\<close>, \<^verbatim>\<open>G_IO_STATUS_EOF\<close> and \<^verbatim>\<open>G_IO_STATUS_ERROR\<close>.
  Nothing is printed for the first two, which the caller cannot tell apart; only the
  error status prints \<^verbatim>\<open>gdb read error\<close>, with the message when there is one. When
  such a read with status \<^verbatim>\<open>AGAIN\<close> or \<^verbatim>\<open>EOF\<close> is the first of a call, the watch
  \<^verbatim>\<open>process_gdb_output\<close> returns \<^verbatim>\<open>FALSE\<close>, having sent and printed nothing; and
  whenever \<^verbatim>\<open>read_lines\<close> returns the null pointer, the watch returns \<^verbatim>\<open>FALSE\<close>
  without sending a command, its only output being what \<^verbatim>\<open>read_lines\<close> printed.
\<close>

theorem zero_byte_read:
  assumes "\<not> g_str_has_suffix buf ''(gdb) ''"
  shows "read_loop buf (Read G_IO_STATUS_AGAIN [] err # rest) = Inr (None, [], rest)
    \<and> read_loop buf (Read G_IO_STATUS_EOF [] err # rest) = Inr (None, [], rest)
    \<and> read_loop buf (Read G_IO_STATUS_ERROR [] err # rest) =
        Inr (None, [PrintErr (case err of Some message \<Rightarrow> ''gdb read error: '' @ message
                               | None \<Rightarrow> ''gdb read error'')], rest)
    \<and> (\<forall>condition app status.
          G_IO_ERR \<notin> condition \<and> G_IO_HUP \<notin> condition
          \<and> (status = G_IO_STATUS_AGAIN \<or> status = G_IO_STATUS_EOF) \<longrightarrow>
          process_gdb_output condition (Read status [] err # rest) app =
            Inr (False, (case pids app of [] \<Rightarrow> app\<lparr>state := STATE_DONE\<rparr> | _ # _ \<Rightarrow> app),
                 [], rest))
    \<and> (\<forall>condition app ch printed ch'.
          G_IO_ERR \<notin> condition \<and> G_IO_HUP \<notin> condition
          \<and> read_lines ch = Inr (None, printed, ch') \<longrightarrow>
          process_gdb_output condition ch app =
            Inr (False, (case pids app of [] \<Rightarrow> app\<lparr>state := STATE_DONE\<rparr> | _ # _ \<Rightarrow> app),
                 printed, ch'))"
proof (intro conjI allI impI)
  show "read_loop buf (Read G_IO_STATUS_AGAIN [] err # rest) = Inr (None, [], rest)"
    by (simp only: read_loop_zero [OF assms] GIOStatus.case)
  show "read_loop buf (Read G_IO_STATUS_EOF [] err # rest) = Inr (None, [], rest)"
    by (simp only: read_loop_zero [OF assms] GIOStatus.case)
  show "read_loop buf (Read G_IO_STATUS_ERROR [] err # rest) =
        Inr (None, [PrintErr (case err of Some message \<Rightarrow> ''gdb read error: '' @ message
                               | None \<Rightarrow> ''gdb read error'')], rest)"
    by (simp only: read_loop_zero [OF assms] GIOStatus.case)
next
  fix condition app status
  assume a: "G_IO_ERR \<notin> condition \<and> G_IO_HUP \<notin> condition
          \<and> (status = G_IO_STATUS_AGAIN \<or> status = G_IO_STATUS_EOF)"
  have e: "\<not> g_str_has_suffix [] ''(gdb) ''" by (simp add: g_str_has_suffix_def)
  from a have "read_lines (Read status [] err # rest) = Inr (None, [], rest)"
    unfolding read_lines_def by (auto simp only: read_loop_zero [OF e] GIOStatus.case)
  with a show "process_gdb_output condition (Read status [] err # rest) app =
            Inr (False, (case pids app of [] \<Rightarrow> app\<lparr>state := STATE_DONE\<rparr> | _ # _ \<Rightarrow> app),
                 [], rest)"
    by (simp add: process_pending)
next
  fix condition app ch printed ch'
  assume "G_IO_ERR \<notin> condition \<and> G_IO_HUP \<notin> condition
          \<and> read_lines ch = Inr (None, printed, ch')"
  then show "process_gdb_output condition ch app =
            Inr (False, (case pids app of [] \<Rightarrow> app\<lparr>state := STATE_DONE\<rparr> | _ # _ \<Rightarrow> app),
                 printed, ch')"
    by (simp add: process_pending)
qed

theorem zero_byte_read_witness:
  "read_loop ''partial'' [Read G_IO_STATUS_EOF [] None] = Inr (None, [], [])
   \<and> read_loop ''partial'' [Read G_IO_STATUS_AGAIN [] None] = Inr (None, [], [])
   \<and> process_gdb_output {G_IO_IN} [Read G_IO_STATUS_EOF [] None] (main_app [111]) =
       Inr (False, main_app [111], [], [])"
proof -
  have e: "\<not> g_str_has_suffix ''partial'' ''(gdb) ''" by (simp add: g_str_has_suffix_def)
  from zero_byte_read [OF e, of None "[]"] show ?thesis
    by (simp add: main_app_def)
qed

text \<open>
  C6, as the claim states it: the lines returned do not depend on how the content is cut
  into chunks over reads and readiness events. Two decompositions of a content that ends
  with the prompt refute it. First, \<^verbatim>\<open>buf\<close> is local to one call: when the content
  \<^verbatim>\<open>a\n(gdb) \<close> comes as \<^verbatim>\<open>a\n\<close>, then a read that has nothing yet, then
  \<^verbatim>\<open>(gdb) \<close>, the first call returns the null pointer and drops \<^verbatim>\<open>a\<close>, and the
  next call returns no line, where the whole content in one read gives the line
  \<^verbatim>\<open>a\<close>. Second, the suffix test runs after every read: the content
  \<^verbatim>\<open>(gdb) \n(gdb) \<close> gives one line when read at once, and no line (with the second
  chunk left in the channel) when the first chunk ends with the prompt.
\<close>

theorem buffer_not_kept_counterexample:
  "read_lines [Read G_IO_STATUS_NORMAL (''a'' @ [LF] @ ''(gdb) '') None] = Inr (Some [''a''], [], [])
   \<and> read_lines [Read G_IO_STATUS_NORMAL (''a'' @ [LF]) None, Read G_IO_STATUS_AGAIN [] None,
                 Read G_IO_STATUS_NORMAL ''(gdb) '' None] =
       Inr (None, [], [Read G_IO_STATUS_NORMAL ''(gdb) '' None])
   \<and> read_lines [Read G_IO_STATUS_NORMAL ''(gdb) '' None] = Inr (Some [], [], [])
   \<and> read_lines [Read G_IO_STATUS_NORMAL (''(gdb) '' @ [LF] @ ''(gdb) '') None] =
       Inr (Some [''(gdb) ''], [], [])
   \<and> read_lines [Read G_IO_STATUS_NORMAL ''(gdb) '' None,
                 Read G_IO_STATUS_NORMAL ([LF] @ ''(gdb) '') None] =
       Inr (Some [], [], [Read G_IO_STATUS_NORMAL ([LF] @ ''(gdb) '') None])"
  by code_simp

text \<open>
  C6, amended. Let a content that ends with the prompt be cut into chunks, each shorter
  than \<^verbatim>\<open>BUF_SIZE\<close> and without NUL, that successive reads of one call of
  \<^verbatim>\<open>read_lines\<close> deliver with status \<^verbatim>\<open>G_IO_STATUS_NORMAL\<close>, such that the content
  does not already end with the prompt at an earlier chunk boundary. Then
  \<^verbatim>\<open>read_lines\<close> returns the content split at line feeds without the last piece,
  prints nothing, and leaves the channel after the last chunk: the same lines for every
  such decomposition, one byte at a time included.
\<close>

theorem read_lines_chunking:
  assumes "\<forall>c\<in>set chunks. length c < BUF_SIZE \<and> NUL \<notin> set c"
    and "g_str_has_suffix (concat chunks) ''(gdb) ''"
    and "\<forall>k. 0 < k \<and> k < length chunks \<longrightarrow>
           \<not> g_str_has_suffix (concat (take k chunks)) ''(gdb) ''"
  shows "read_lines (map (\<lambda>c. Read G_IO_STATUS_NORMAL c None) chunks @ rest) =
     Inr (Some (butlast (g_strsplit (concat chunks))), [], rest)"
proof -
  from assms(2) have ne: "chunks \<noteq> []" by (auto simp: g_str_has_suffix_def)
  from assms(2) have sfx: "g_str_has_suffix ([] @ concat chunks) ''(gdb) ''" by simp
  from assms(3) have early: "\<forall>k. 0 < k \<and> k < length chunks \<longrightarrow>
           \<not> g_str_has_suffix ([] @ concat (take k chunks)) ''(gdb) ''" by simp
  from read_loop_chunks [OF assms(1) ne sfx early] show ?thesis
    by (simp add: read_lines_def)
qed

theorem read_lines_chunking_witness:
  "read_lines [Read G_IO_STATUS_NORMAL (''a'' @ [LF]) None, Read G_IO_STATUS_NORMAL ''(g'' None,
               Read G_IO_STATUS_NORMAL ''db) '' None] = Inr (Some [''a''], [], [])
   \<and> read_lines [Read G_IO_STATUS_NORMAL (''a'' @ [LF] @ ''(gdb) '') None] = Inr (Some [''a''], [], [])"
proof -
  let ?chunks = "[''a'' @ [LF], ''(g'', ''db) '']"
  have h1: "\<forall>c\<in>set ?chunks. length c < BUF_SIZE \<and> NUL \<notin> set c"
    by (simp add: BUF_SIZE_def NUL_def LF_def)
  have h2: "g_str_has_suffix (concat ?chunks) ''(gdb) ''"
    by (simp add: g_str_has_suffix_def)
  have h3: "\<forall>k. 0 < k \<and> k < length ?chunks \<longrightarrow>
           \<not> g_str_has_suffix (concat (take k ?chunks)) ''(gdb) ''"
  proof (intro allI impI)
    fix k assume "0 < k \<and> k < length ?chunks"
    then have "k = 1 \<or> k = 2" by auto
    then show "\<not> g_str_has_suffix (concat (take k ?chunks)) ''(gdb) ''"
      by (auto simp: g_str_has_suffix_def eval_nat_numeral)
  qed
  let ?one = "[''a'' @ [LF] @ ''(gdb) '']"
  have g1: "\<forall>c\<in>set ?one. length c < BUF_SIZE \<and> NUL \<notin> set c"
    by (simp add: BUF_SIZE_def NUL_def LF_def)
  have g2: "g_str_has_suffix (concat ?one) ''(gdb) ''"
    by (simp add: g_str_has_suffix_def)
  have g3: "\<forall>k. 0 < k \<and> k < length ?one \<longrightarrow>
           \<not> g_str_has_suffix (concat (take k ?one)) ''(gdb) ''"
    by simp
  have s: "butlast (g_strsplit (''a'' @ [LF] @ ''(gdb) '')) = [''a'']"
    by (simp add: g_strsplit_def LF_def)
  from read_lines_chunking [OF h1 h2 h3, of "[]"] read_lines_chunking [OF g1 g2 g3, of "[]"] s
  show ?thesis by simp
qed

section \<open>Thread identifiers: what is extracted\<close>

lemma scan_line_True: "scan_line True l = (True, takeWhile g_ascii_isdigit l)"
  by (induction l) simp_all

lemma scan_line_False:
  "scan_line False l =
     ((\<exists>c\<in>set l. g_ascii_isdigit c),
      takeWhile (\<lambda>c. \<not> g_ascii_isdigit c) l
        @ takeWhile g_ascii_isdigit (dropWhile (\<lambda>c. \<not> g_ascii_isdigit c) l))"
  by (induction l) (simp_all add: scan_line_True)

lemma strstr_sublist: "(strstr h n \<noteq> None) = sublist n h"
proof (induction h)
  case Nil
  then show ?case by simp
next
  case (Cons c cs)
  have "prefix n (c # cs) = (take (length n) (c # cs) = n)"
    by (metis append_eq_conv_conj prefix_def append_take_drop_id)
  with Cons show ?case by (simp add: sublist_Cons_right del: take_Suc_Cons)
qed

lemma get_thread_ids_loop_acc:
  "get_thread_ids_loop acc lines =
     (fst (get_thread_ids_loop [] lines) @ acc, snd (get_thread_ids_loop [] lines))"
proof (induction lines arbitrary: acc)
  case Nil
  show ?case by simp
next
  case (Cons l ls)
  show ?case
    by (simp add: Cons.IH [of "_ # _"] Cons.IH [of acc] split: option.splits prod.splits)
qed

lemma get_thread_ids_Cons:
  "fst (get_thread_ids (l # ls)) = fst (get_thread_ids ls) @ fst (get_thread_ids [l])"
  by (simp add: get_thread_ids_def get_thread_ids_loop_acc [of "_ # _"]
      split: option.splits prod.splits)

lemma get_thread_ids_snd_Cons:
  "snd (get_thread_ids (l # ls)) =
     (case strstr l ''Thread'' of None \<Rightarrow> l | Some _ \<Rightarrow> snd (scan_line False l))
       # snd (get_thread_ids ls)"
  by (simp add: get_thread_ids_def get_thread_ids_loop_acc [of "_ # _"]
      split: option.splits prod.splits)

lemma get_thread_ids_lines:
  "snd (get_thread_ids lines) =
     map (\<lambda>l. if sublist ''Thread'' l
               then takeWhile (\<lambda>c. \<not> g_ascii_isdigit c) l
                      @ takeWhile g_ascii_isdigit (dropWhile (\<lambda>c. \<not> g_ascii_isdigit c) l)
               else l) lines"
proof (induction lines)
  case Nil
  show ?case by (simp add: get_thread_ids_def)
next
  case (Cons l ls)
  show ?case
  proof (cases "strstr l ''Thread''")
    case None
    then have "\<not> sublist ''Thread'' l" using strstr_sublist [of l "''Thread''"] by simp
    with None Cons show ?thesis by (simp add: get_thread_ids_snd_Cons)
  next
    case (Some a)
    then have "sublist ''Thread'' l" using strstr_sublist [of l "''Thread''"] by simp
    with Some Cons show ?thesis by (simp add: get_thread_ids_snd_Cons scan_line_False)
  qed
qed

lemma send_thread_backtrace_Cons:
  "threads app = t # ts \<Longrightarrow>
     send_thread_backtrace app = Inr (app\<lparr>threads := ts\<rparr>, [Send (''pstack_thread '' @ t @ [LF])])"
  by (simp add: send_thread_backtrace_def send_command_def)

lemma format_d_111: "format_d 111 = ''111''" by code_simp

lemma format_d_222: "format_d 222 = ''222''" by code_simp

text \<open>
  C4, as the claim states it: the identifier is the first run of digits after the token
  \<^verbatim>\<open>Thread\<close>, and a line whose digits all come before the token yields nothing.
  Both fail: the scan starts at the beginning of the line, so for gdb's
  \<^verbatim>\<open>  2 Thread 0x7f (LWP 5)\<close> the identifier is \<^verbatim>\<open>  2\<close> (not \<^verbatim>\<open>0\<close>), and
  \<^verbatim>\<open>2 Thread abc\<close> yields \<^verbatim>\<open>2\<close>.
\<close>

theorem digits_before_token_counterexample:
  "fst (get_thread_ids [''  2 Thread 0x7f (LWP 5)'']) = [''  2'']
   \<and> fst (get_thread_ids [''2 Thread abc'']) = [''2'']"
  by code_simp

lemma get_thread_ids_single:
  "fst (get_thread_ids [l]) =
     (if sublist ''Thread'' l \<and> (\<exists>c\<in>set l. g_ascii_isdigit c)
      then [takeWhile (\<lambda>c. \<not> g_ascii_isdigit c) l
              @ takeWhile g_ascii_isdigit (dropWhile (\<lambda>c. \<not> g_ascii_isdigit c) l)]
      else [])"
proof (cases "strstr l ''Thread''")
  case None
  then have "\<not> sublist ''Thread'' l" using strstr_sublist [of l "''Thread''"] by simp
  with None show ?thesis by (simp add: get_thread_ids_def)
next
  case (Some a)
  then have "sublist ''Thread'' l" using strstr_sublist [of l "''Thread''"] by simp
  with Some show ?thesis by (simp add: get_thread_ids_def scan_line_False)
qed

text \<open>
  C4, amended. For a thread-listing turn of any number of lines, a line yields an
  identifier exactly when it contains \<^verbatim>\<open>Thread\<close> somewhere and a digit somewhere,
  before or after the token; the identifier is then the beginning of the line up to the
  end of its first maximal run of digits, the characters before that run included. Any
  other line yields nothing. The list that \<^verbatim>\<open>get_thread_ids\<close> returns for the turn
  holds exactly these identifiers, one per such line (the last line's first).
\<close>

theorem thread_id_is_line_prefix:
  "fst (get_thread_ids lines) =
     rev (map (\<lambda>l. takeWhile (\<lambda>c. \<not> g_ascii_isdigit c) l
                     @ takeWhile g_ascii_isdigit (dropWhile (\<lambda>c. \<not> g_ascii_isdigit c) l))
            (filter (\<lambda>l. sublist ''Thread'' l \<and> (\<exists>c\<in>set l. g_ascii_isdigit c)) lines))"
proof (induction lines)
  case Nil
  show ?case by (simp add: get_thread_ids_def)
next
  case (Cons l ls)
  show ?case
    unfolding get_thread_ids_Cons [of l ls] Cons.IH get_thread_ids_single [of l]
    by simp
qed

theorem thread_id_is_line_prefix_witness:
  "fst (get_thread_ids
     [''Id   Target Id'', ''  2 Thread 0x7f (LWP 5)'', ''Thread without digit'',
      ''7 digits without token'', ''* 1 Thread 0x7e (LWP 4)'']) = [''* 1'', ''  2'']"
proof -
  have rhs: "rev (map (\<lambda>l. takeWhile (\<lambda>c. \<not> g_ascii_isdigit c) l
                     @ takeWhile g_ascii_isdigit (dropWhile (\<lambda>c. \<not> g_ascii_isdigit c) l))
            (filter (\<lambda>l. sublist ''Thread'' l \<and> (\<exists>c\<in>set l. g_ascii_isdigit c))
               [''Id   Target Id'', ''  2 Thread 0x7f (LWP 5)'', ''Thread without digit'',
                ''7 digits without token'', ''* 1 Thread 0x7e (LWP 4)'']))
      = [''* 1'', ''  2'']"
    by code_simp
  from thread_id_is_line_prefix
    [of "[''Id   Target Id'', ''  2 Thread 0x7f (LWP 5)'', ''Thread without digit'',
          ''7 digits without token'', ''* 1 Thread 0x7e (LWP 4)'']"] rhs
  show ?thesis by (simp only:)
qed

section \<open>The state handlers\<close>

lemma strncmp_eq_prefix: "strncmp_eq l ''ptrace:'' (length ''ptrace:'') = prefix ''ptrace:'' l"
proof -
  have "prefix ''ptrace:'' l = (take (length ''ptrace:'') l = ''ptrace:'')"
    by (metis append_eq_conv_conj prefix_def append_take_drop_id)
  then show ?thesis by (simp add: strncmp_eq_def)
qed

lemma attach_ok_find: "attach_ok lines = find (prefix ''ptrace:'') lines"
  by (induction lines) (simp_all add: strncmp_eq_prefix del: length_Cons list.size)

lemma find_Some_ex: "(find P xs \<noteq> None) = (\<exists>i<length xs. P (xs ! i))"
  by (auto simp: find_None_iff in_set_conv_nth)

lemma process_step:
  assumes "G_IO_ERR \<notin> condition" and "G_IO_HUP \<notin> condition"
    and "pids app = p # rest"
    and "read_lines ch = Inr (Some lines, printed, ch')"
  shows "process_gdb_output condition ch app =
     (case state_switch lines p app of
        Inl f \<Rightarrow> Inl f
      | Inr (app2, effs, _) \<Rightarrow> Inr (True, app2, printed @ effs, ch'))"
  using assms by (simp add: process_gdb_output_def)

lemma process_step_done:
  assumes "G_IO_ERR \<notin> condition" and "G_IO_HUP \<notin> condition"
    and "pids app = []"
    and "read_lines ch = Inr (Some lines, printed, ch')"
  shows "process_gdb_output condition ch app =
     Inr (True, app\<lparr>state := STATE_DONE\<rparr>, printed @ [Send (''quit'' @ [LF])], ch')"
  using assms by (simp add: process_gdb_output_def state_switch_def send_command_def)

lemma attach_state_step:
  assumes "G_IO_ERR \<notin> condition" and "G_IO_HUP \<notin> condition"
    and "state app = STATE_ATTACH"
    and "read_lines ch = Inr (Some lines, printed, ch')"
  shows "process_gdb_output condition ch app =
     (case pids app of
        [] \<Rightarrow> Inr (True, app\<lparr>state := STATE_DONE\<rparr>, printed @ [Send (''quit'' @ [LF])], ch')
      | q # _ \<Rightarrow>
          Inr (True, app\<lparr>state := STATE_CHECK_THREADS\<rparr>,
               printed @ [Send (''attach '' @ format_d q @ [LF])], ch'))"
proof (cases "pids app")
  case Nil
  with assms show ?thesis by (simp add: process_step_done)
next
  case (Cons q qs)
  with assms show ?thesis
    by (simp add: process_step [OF assms(1,2) Cons assms(4)] state_switch_def send_command_def)
qed

text \<open>
  The watch never takes \<^verbatim>\<open>->next\<close> or \<^verbatim>\<open>->data\<close> of an empty list: with an empty
  pid queue it runs the \<^verbatim>\<open>STATE_DONE\<close> case, and \<^verbatim>\<open>send_thread_backtrace\<close> is
  only called behind a test of the thread queue.
\<close>

lemma read_loop_faults: "read_loop buf ch = Inl f \<Longrightarrow> f = ReadBlocks \<or> f = BufferOverrun"
  by (induction buf ch rule: read_loop.induct) (auto simp: Let_def split: if_splits)

lemma state_switch_returns:
  "pids app = p # rest \<Longrightarrow> \<exists>app' effs lines'. state_switch lines p app = Inr (app', effs, lines')"
  by (cases "state app")
    (auto simp: state_switch_def detach_case_def send_thread_backtrace_def Let_def
      split: option.splits list.splits prod.splits)

lemma process_gdb_output_no_null_deref: "process_gdb_output c ch app \<noteq> Inl NullDeref"
proof
  assume a: "process_gdb_output c ch app = Inl NullDeref"
  then have c: "G_IO_ERR \<notin> c" "G_IO_HUP \<notin> c"
    by (auto simp: process_gdb_output_def split: if_splits)
  show False
  proof (cases "read_lines ch")
    case (Inl f)
    with a c have "f = NullDeref"
      by (auto simp: process_gdb_output_def split: list.splits)
    with Inl read_loop_faults [of "[]" ch f] show False by (simp add: read_lines_def)
  next
    case (Inr triple)
    obtain r printed ch1 where t: "triple = (r, printed, ch1)" by (cases triple)
    show False
    proof (cases r)
      case None
      with a c Inr t show False
        by (auto simp: process_gdb_output_def split: list.splits)
    next
      case (Some lines)
      show False
      proof (cases "pids app")
        case Nil
        with a c Inr t Some show False
          by (auto simp: process_gdb_output_def state_switch_def)
      next
        case (Cons p rest)
        from state_switch_returns [OF Cons, of lines] obtain app' effs lines' where
          "state_switch lines p app = Inr (app', effs, lines')" by blast
        with a c Inr t Some Cons show False
          by (auto simp: process_gdb_output_def)
      qed
    qed
  qed
qed

text \<open>
  C7. Let the watch run in \<^verbatim>\<open>STATE_CHECK_THREADS\<close> with a target \<open>p\<close> at the front
  of the queue, and let the framer hand over the lines of a turn. What happens is decided
  by the first line, at any position, that begins with \<^verbatim>\<open>ptrace:\<close>. If there is none,
  \<^verbatim>\<open>info threads\<close> is sent and the state becomes \<^verbatim>\<open>STATE_BACKTRACE\<close>. If there is
  one, \<^verbatim>\<open>Skipping pid p: \<close> followed by that line is printed as an error, the flush
  command \<^verbatim>\<open>p 0\<close> is sent, \<open>p\<close> leaves the queue and the state becomes
  \<^verbatim>\<open>STATE_ATTACH\<close>. There is such a line exactly when some line of the turn begins
  with \<^verbatim>\<open>ptrace:\<close>. And on the next turn the session goes on: it attaches to the next
  target of the queue, or sends \<^verbatim>\<open>quit\<close> when the queue is empty.
\<close>

theorem attach_failure_detected:
  assumes "G_IO_ERR \<notin> condition" and "G_IO_HUP \<notin> condition"
    and "state app = STATE_CHECK_THREADS"
    and "pids app = p # rest"
    and "read_lines ch = Inr (Some lines, printed, ch')"
  shows "process_gdb_output condition ch app =
      (case find (prefix ''ptrace:'') lines of
         None \<Rightarrow>
           Inr (True, app\<lparr>state := STATE_BACKTRACE\<rparr>,
                printed @ [Send (''info threads'' @ [LF])], ch')
       | Some message \<Rightarrow>
           Inr (True, app\<lparr>pids := rest, state := STATE_ATTACH\<rparr>,
                printed @ [PrintErr (''Skipping pid '' @ format_d p @ '': '' @ message @ [LF]),
                           Send (''p 0'' @ [LF])], ch'))
    \<and> ((find (prefix ''ptrace:'') lines \<noteq> None) = (\<exists>i<length lines. prefix ''ptrace:'' (lines ! i)))
    \<and> (\<forall>lines2 printed2 ch2. read_lines ch' = Inr (Some lines2, printed2, ch2) \<longrightarrow>
          process_gdb_output condition ch' (app\<lparr>pids := rest, state := STATE_ATTACH\<rparr>) =
            (case rest of
               [] \<Rightarrow> Inr (True, app\<lparr>pids := [], state := STATE_DONE\<rparr>,
                          printed2 @ [Send (''quit'' @ [LF])], ch2)
             | q # _ \<Rightarrow> Inr (True, app\<lparr>pids := rest, state := STATE_CHECK_THREADS\<rparr>,
                          printed2 @ [Send (''attach '' @ format_d q @ [LF])], ch2)))"
proof (intro conjI allI impI)
  show "process_gdb_output condition ch app =
      (case find (prefix ''ptrace:'') lines of
         None \<Rightarrow>
           Inr (True, app\<lparr>state := STATE_BACKTRACE\<rparr>,
                printed @ [Send (''info threads'' @ [LF])], ch')
       | Some message \<Rightarrow>
           Inr (True, app\<lparr>pids := rest, state := STATE_ATTACH\<rparr>,
                printed @ [PrintErr (''Skipping pid '' @ format_d p @ '': '' @ message @ [LF]),
                           Send (''p 0'' @ [LF])], ch'))"
    using assms(3,4)
    by (simp add: process_step [OF assms(1,2,4,5)] state_switch_def send_command_def
        attach_ok_find split: option.splits)
  show "(find (prefix ''ptrace:'') lines \<noteq> None) = (\<exists>i<length lines. prefix ''ptrace:'' (lines ! i))"
    by (rule find_Some_ex)
next
  fix lines2 printed2 ch2
  assume r: "read_lines ch' = Inr (Some lines2, printed2, ch2)"
  have s: "state (app\<lparr>pids := rest, state := STATE_ATTACH\<rparr>) = STATE_ATTACH" by simp
  show "process_gdb_output condition ch' (app\<lparr>pids := rest, state := STATE_ATTACH\<rparr>) =
            (case rest of
               [] \<Rightarrow> Inr (True, app\<lparr>pids := [], state := STATE_DONE\<rparr>,
                          printed2 @ [Send (''quit'' @ [LF])], ch2)
             | q # _ \<Rightarrow> Inr (True, app\<lparr>pids := rest, state := STATE_CHECK_THREADS\<rparr>,
                          printed2 @ [Send (''attach '' @ format_d q @ [LF])], ch2))"
    by (simp add: attach_state_step [OF assms(1,2) s r] split: list.splits)
qed

theorem attach_failure_detected_witness:
  "process_gdb_output {G_IO_IN}
     [Read G_IO_STATUS_NORMAL (''Attaching to process 111'' @ [LF] @ ''ptrace: Operation not permitted.'' @ [LF] @ ''(gdb) '') None,
      Read G_IO_STATUS_NORMAL (''$1 = 0'' @ [LF] @ ''(gdb) '') None]
     \<lparr>pids = [111, 222], threads = [], reap_try = 0, state = STATE_CHECK_THREADS\<rparr> =
   Inr (True, \<lparr>pids = [222], threads = [], reap_try = 0, state = STATE_ATTACH\<rparr>,
        [PrintErr (''Skipping pid 111: ptrace: Operation not permitted.'' @ [LF]), Send (''p 0'' @ [LF])],
        [Read G_IO_STATUS_NORMAL (''$1 = 0'' @ [LF] @ ''(gdb) '') None])
   \<and> process_gdb_output {G_IO_IN} [Read G_IO_STATUS_NORMAL (''$1 = 0'' @ [LF] @ ''(gdb) '') None]
       \<lparr>pids = [222], threads = [], reap_try = 0, state = STATE_ATTACH\<rparr> =
     Inr (True, \<lparr>pids = [222], threads = [], reap_try = 0, state = STATE_CHECK_THREADS\<rparr>,
          [Send (''attach 222'' @ [LF])], [])"
proof -
  have r: "read_lines
     [Read G_IO_STATUS_NORMAL (''Attaching to process 111'' @ [LF] @ ''ptrace: Operation not permitted.'' @ [LF] @ ''(gdb) '') None,
      Read G_IO_STATUS_NORMAL (''$1 = 0'' @ [LF] @ ''(gdb) '') None]
     = Inr (Some [''Attaching to process 111'', ''ptrace: Operation not permitted.''], [],
            [Read G_IO_STATUS_NORMAL (''$1 = 0'' @ [LF] @ ''(gdb) '') None])"
    by code_simp
  have r2: "read_lines [Read G_IO_STATUS_NORMAL (''$1 = 0'' @ [LF] @ ''(gdb) '') None]
     = Inr (Some [''$1 = 0''], [], [])"
    by code_simp
  have f: "find (prefix ''ptrace:'') [''Attaching to process 111'', ''ptrace: Operation not permitted.'']
     = Some ''ptrace: Operation not permitted.''"
    by simp
  have c: "G_IO_ERR \<notin> {G_IO_IN}" "G_IO_HUP \<notin> {G_IO_IN}" by simp_all
  have st: "state \<lparr>pids = [111, 222], threads = [], reap_try = 0, state = STATE_CHECK_THREADS\<rparr> = STATE_CHECK_THREADS"
    and pd: "pids \<lparr>pids = [111, 222], threads = [], reap_try = 0, state = STATE_CHECK_THREADS\<rparr> = [111, 222]"
    by simp_all
  from attach_failure_detected [OF c st pd r] r2 show ?thesis
    by (simp add: f format_d_111 format_d_222)
qed

text \<open>
  C3, as the claim states it: a non-empty listing from which no identifier could be
  extracted makes the handler send \<^verbatim>\<open>backtrace\<close> and go to
  \<^verbatim>\<open>STATE_PRINT_BACKTRACE\<close>. On the listing \<^verbatim>\<open>No threads.\<close> the handler prints
  the header, sends nothing and goes to \<^verbatim>\<open>STATE_DETACH\<close>.
\<close>

theorem no_identifier_goes_to_detach_counterexample:
  "process_gdb_output {G_IO_IN}
     [Read G_IO_STATUS_NORMAL (''No threads.'' @ [LF] @ ''(gdb) '') None]
     \<lparr>pids = [222], threads = [], reap_try = 0, state = STATE_BACKTRACE\<rparr> =
   Inr (True, \<lparr>pids = [222], threads = [], reap_try = 0, state = STATE_DETACH\<rparr>,
        [Print (''Backtrace for pid 222'' @ [LF])], [])"
  by code_simp

text \<open>
  C3, amended. In \<^verbatim>\<open>STATE_BACKTRACE\<close>, with a target at the front of the queue, the
  handler prints the header for the target and then: on an empty turn it sends
  \<^verbatim>\<open>backtrace\<close> and goes to \<^verbatim>\<open>STATE_PRINT_BACKTRACE\<close>; on a non-empty turn with
  at least one identifier it takes the front identifier off the queue, sends
  \<^verbatim>\<open>pstack_thread\<close> for it and goes to \<^verbatim>\<open>STATE_PRINT_BACKTRACE\<close>; on a non-empty
  turn without any identifier it sends no backtrace command and goes to
  \<^verbatim>\<open>STATE_DETACH\<close>.
\<close>

theorem backtrace_state_step:
  assumes "G_IO_ERR \<notin> condition" and "G_IO_HUP \<notin> condition"
    and "state app = STATE_BACKTRACE"
    and "pids app = p # rest"
    and "read_lines ch = Inr (Some lines, printed, ch')"
  shows "process_gdb_output condition ch app =
     (case lines of
        [] \<Rightarrow>
          Inr (True, app\<lparr>state := STATE_PRINT_BACKTRACE\<rparr>,
               printed @ [Print (''Backtrace for pid '' @ format_d p @ [LF]),
                          Send (''backtrace'' @ [LF])], ch')
      | _ # _ \<Rightarrow>
          (case fst (get_thread_ids lines) of
             [] \<Rightarrow>
               Inr (True, app\<lparr>threads := [], state := STATE_DETACH\<rparr>,
                    printed @ [Print (''Backtrace for pid '' @ format_d p @ [LF])], ch')
           | t # ts \<Rightarrow>
               Inr (True, app\<lparr>threads := ts, state := STATE_PRINT_BACKTRACE\<rparr>,
                    printed @ [Print (''Backtrace for pid '' @ format_d p @ [LF]),
                               Send (''pstack_thread '' @ t @ [LF])], ch')))"
  using assms(3)
  by (simp add: process_step [OF assms(1,2,4,5)] state_switch_def send_command_def Let_def
      send_thread_backtrace_def split: list.splits prod.splits)

theorem backtrace_state_step_witness:
  "process_gdb_output {G_IO_IN}
     [Read G_IO_STATUS_NORMAL (''  2 Thread 0x7f (LWP 5)'' @ [LF] @ ''  1 Thread 0x7e (LWP 4)'' @ [LF] @ ''(gdb) '') None]
     \<lparr>pids = [222], threads = [], reap_try = 0, state = STATE_BACKTRACE\<rparr> =
   Inr (True, \<lparr>pids = [222], threads = [''  2''], reap_try = 0, state = STATE_PRINT_BACKTRACE\<rparr>,
        [Print (''Backtrace for pid 222'' @ [LF]), Send (''pstack_thread   1'' @ [LF])], [])"
proof -
  have r: "read_lines [Read G_IO_STATUS_NORMAL (''  2 Thread 0x7f (LWP 5)'' @ [LF] @ ''  1 Thread 0x7e (LWP 4)'' @ [LF] @ ''(gdb) '') None]
     = Inr (Some [''  2 Thread 0x7f (LWP 5)'', ''  1 Thread 0x7e (LWP 4)''], [], [])"
    by code_simp
  have g: "fst (get_thread_ids [''  2 Thread 0x7f (LWP 5)'', ''  1 Thread 0x7e (LWP 4)'']) = [''  1'', ''  2'']"
    by code_simp
  have c: "G_IO_ERR \<notin> {G_IO_IN}" "G_IO_HUP \<notin> {G_IO_IN}" by simp_all
  have st: "state \<lparr>pids = [222], threads = [], reap_try = 0, state = STATE_BACKTRACE\<rparr> = STATE_BACKTRACE"
    and pd: "pids \<lparr>pids = [222], threads = [], reap_try = 0, state = STATE_BACKTRACE\<rparr> = [222]"
    by simp_all
  from backtrace_state_step [OF c st pd r] show ?thesis
    by (simp add: g format_d_222)
qed

text \<open>
  C9, as the claim states it: no handler changes the lines it was handed. The handler
  of \<^verbatim>\<open>STATE_BACKTRACE\<close> does: \<^verbatim>\<open>get_thread_ids\<close> cuts a line by writing NUL into
  it, so the line \<^verbatim>\<open>  2 Thread 0x7f (LWP 5)\<close> is \<^verbatim>\<open>  2\<close> when the turn is
  released.
\<close>

theorem handler_truncates_lines_counterexample:
  "state_switch [''  2 Thread 0x7f (LWP 5)''] 222
     \<lparr>pids = [222], threads = [], reap_try = 0, state = STATE_BACKTRACE\<rparr> =
   Inr (\<lparr>pids = [222], threads = [], reap_try = 0, state = STATE_PRINT_BACKTRACE\<rparr>,
        [Print (''Backtrace for pid 222'' @ [LF]), Send (''pstack_thread   2'' @ [LF])],
        [''  2''])"
  by code_simp

text \<open>
  C9, amended. Every handler but that of \<^verbatim>\<open>STATE_BACKTRACE\<close> leaves the lines of
  the turn as they were handed over. The handler of \<^verbatim>\<open>STATE_BACKTRACE\<close> keeps the
  number and the order of the lines and leaves every line without \<^verbatim>\<open>Thread\<close> as it
  was; a line that contains \<^verbatim>\<open>Thread\<close> is cut after its first maximal run of digits
  (and is unchanged when it has no digit, or nothing after that run).
\<close>

theorem switch_lines_after:
  assumes "state_switch lines pid app = Inr (app', effs, lines')"
  shows "lines' =
     (if state app = STATE_BACKTRACE
      then map (\<lambda>l. if sublist ''Thread'' l
                     then takeWhile (\<lambda>c. \<not> g_ascii_isdigit c) l
                            @ takeWhile g_ascii_isdigit (dropWhile (\<lambda>c. \<not> g_ascii_isdigit c) l)
                     else l) lines
      else lines)"
proof (cases "state app = STATE_BACKTRACE")
  case False
  with assms show ?thesis
    by (cases "state app")
      (auto simp: state_switch_def detach_case_def send_thread_backtrace_def
        split: option.splits list.splits sum.splits prod.splits)
next
  case True
  have "lines' = snd (get_thread_ids lines)"
  proof (cases lines)
    case Nil
    with assms True show ?thesis by (simp add: state_switch_def get_thread_ids_def)
  next
    case (Cons l ls)
    with assms True show ?thesis
      by (auto simp: state_switch_def send_thread_backtrace_def Let_def
          split: list.splits prod.splits)
  qed
  with True show ?thesis by (simp add: get_thread_ids_lines)
qed

theorem switch_lines_after_witness:
  "state_switch [''  2 Thread 0x7f (LWP 5)'', ''plain''] 222
     \<lparr>pids = [222], threads = [], reap_try = 0, state = STATE_BACKTRACE\<rparr> =
   Inr (\<lparr>pids = [222], threads = [], reap_try = 0, state = STATE_PRINT_BACKTRACE\<rparr>,
        [Print (''Backtrace for pid 222'' @ [LF]), Send (''pstack_thread   2'' @ [LF])],
        [''  2'', ''plain''])
   \<and> [''  2'', ''plain''] =
       map (\<lambda>l. if sublist ''Thread'' l
                 then takeWhile (\<lambda>c. \<not> g_ascii_isdigit c) l
                        @ takeWhile g_ascii_isdigit (dropWhile (\<lambda>c. \<not> g_ascii_isdigit c) l)
                 else l) [''  2 Thread 0x7f (LWP 5)'', ''plain'']"
proof -
  have e: "state_switch [''  2 Thread 0x7f (LWP 5)'', ''plain''] 222
     \<lparr>pids = [222], threads = [], reap_try = 0, state = STATE_BACKTRACE\<rparr> =
   Inr (\<lparr>pids = [222], threads = [], reap_try = 0, state = STATE_PRINT_BACKTRACE\<rparr>,
        [Print (''Backtrace for pid 222'' @ [LF]), Send (''pstack_thread   2'' @ [LF])],
        [''  2'', ''plain''])"
    by code_simp
  from switch_lines_after [OF e] e show ?thesis by simp
qed

section \<open>The order of the backtraces\<close>

lemma has_suffix_append: "g_str_has_suffix (xs @ sfx) sfx"
  by (simp add: g_str_has_suffix_def)

lemma read_lines_turn:
  assumes "one_read ls"
  shows "read_lines (Read G_IO_STATUS_NORMAL (turn_bytes ls) None # ch) = Inr (Some ls, [], ch)"
proof -
  from assms have len: "length (turn_bytes ls) < BUF_SIZE"
    and nolf: "\<forall>l\<in>set ls. LF \<notin> set l"
    and nonul: "NUL \<notin> set (turn_bytes ls)"
    by (auto simp: one_read_def turn_bytes_def NUL_def LF_def)
  have sfx: "g_str_has_suffix ([] @ turn_bytes ls) ''(gdb) ''"
    unfolding turn_bytes_def append_Nil by (rule has_suffix_append)
  have "butlast (g_strsplit (turn_bytes ls)) = ls"
    unfolding turn_bytes_def by (rule g_strsplit_lines [OF nolf])
  with sfx show ?thesis
    unfolding read_lines_def by (simp add: read_loop_normal [OF len nonul] del: read_loop.simps)
qed

lemma sent_print_lines: "sent (print_lines ls) = []"
  by (induction ls) (simp_all add: print_lines_def)

lemma print_backtrace_drain:
  assumes "state app = STATE_PRINT_BACKTRACE" and "pids app = p # rest"
    and "length turns = length (threads app)" and "\<forall>ls\<in>set turns. one_read ls"
  shows "\<exists>effs. session (replicate (length turns) {G_IO_IN})
                  (map (\<lambda>ls. Read G_IO_STATUS_NORMAL (turn_bytes ls) None) turns @ ch) app =
                (Watching, app\<lparr>threads := []\<rparr>, effs)
              \<and> sent effs = map (\<lambda>t. ''pstack_thread '' @ t @ [LF]) (threads app)"
  using assms
proof (induction turns arbitrary: app)
  case Nil
  then show ?case by simp
next
  case (Cons ls turns)
  from Cons.prems(3) obtain t ts where ts: "threads app = t # ts"
    by (cases "threads app") simp_all
  let ?app1 = "app\<lparr>threads := ts\<rparr>"
  let ?ch1 = "map (\<lambda>ls. Read G_IO_STATUS_NORMAL (turn_bytes ls) None) turns @ ch"
  have c: "G_IO_ERR \<notin> {G_IO_IN}" "G_IO_HUP \<notin> {G_IO_IN}" by simp_all
  from Cons.prems(4) have rd: "read_lines (Read G_IO_STATUS_NORMAL (turn_bytes ls) None # ?ch1)
      = Inr (Some ls, [], ?ch1)"
    by (simp add: read_lines_turn)
  have step: "process_gdb_output {G_IO_IN} (Read G_IO_STATUS_NORMAL (turn_bytes ls) None # ?ch1) app
      = Inr (True, ?app1, print_lines ls @ [Send (''pstack_thread '' @ t @ [LF])], ?ch1)"
    using Cons.prems(1) ts
    by (simp add: process_step [OF c Cons.prems(2) rd] state_switch_def
        send_thread_backtrace_def send_command_def)
  have "state ?app1 = STATE_PRINT_BACKTRACE" "pids ?app1 = p # rest"
    "length turns = length (threads ?app1)" "\<forall>ls\<in>set turns. one_read ls"
    using Cons.prems ts by simp_all
  from Cons.IH [OF this] obtain effs where
    s: "session (replicate (length turns) {G_IO_IN}) ?ch1 ?app1 = (Watching, ?app1\<lparr>threads := []\<rparr>, effs)"
    and e: "sent effs = map (\<lambda>t. ''pstack_thread '' @ t @ [LF]) ts"
    by auto
  from step s e ts show ?case
    by (simp add: sent_append sent_print_lines)
qed

lemma backtraces_in_queue_order:
  assumes "state app = STATE_BACKTRACE" and "pids app = p # rest"
    and "fst (get_thread_ids listing) \<noteq> []"
    and "Suc (length turns) = length (fst (get_thread_ids listing))"
    and "one_read listing" and "\<forall>ls\<in>set turns. one_read ls"
  shows "\<exists>effs. session (replicate (Suc (length turns)) {G_IO_IN})
                  (map (\<lambda>ls. Read G_IO_STATUS_NORMAL (turn_bytes ls) None) (listing # turns) @ ch) app =
                (Watching, app\<lparr>threads := [], state := STATE_PRINT_BACKTRACE\<rparr>, effs)
              \<and> sent effs = map (\<lambda>t. ''pstack_thread '' @ t @ [LF]) (fst (get_thread_ids listing))"
proof -
  from assms(3) obtain t ts where ids: "fst (get_thread_ids listing) = t # ts"
    by (cases "fst (get_thread_ids listing)") simp_all
  then have ne: "listing \<noteq> []" by (auto simp: get_thread_ids_def)
  let ?app1 = "app\<lparr>threads := ts, state := STATE_PRINT_BACKTRACE\<rparr>"
  let ?ch1 = "map (\<lambda>ls. Read G_IO_STATUS_NORMAL (turn_bytes ls) None) turns @ ch"
  have c: "G_IO_ERR \<notin> {G_IO_IN}" "G_IO_HUP \<notin> {G_IO_IN}" by simp_all
  from assms(5) have rd: "read_lines (Read G_IO_STATUS_NORMAL (turn_bytes listing) None # ?ch1)
      = Inr (Some listing, [], ?ch1)"
    by (simp add: read_lines_turn)
  have step: "process_gdb_output {G_IO_IN} (Read G_IO_STATUS_NORMAL (turn_bytes listing) None # ?ch1) app
      = Inr (True, ?app1, [Print (''Backtrace for pid '' @ format_d p @ [LF]),
                            Send (''pstack_thread '' @ t @ [LF])], ?ch1)"
  proof -
    from ids obtain cut where g: "get_thread_ids listing = (t # ts, cut)"
      by (cases "get_thread_ids listing") simp
    from ne obtain l ls where l: "listing = l # ls" by (cases listing) simp_all
    from g l have g': "get_thread_ids (l # ls) = (t # ts, cut)" by simp
    show ?thesis
      using assms(1) unfolding process_step [OF c assms(2) rd]
      by (simp add: state_switch_def Let_def l g' send_thread_backtrace_def send_command_def)
  qed
  have "state ?app1 = STATE_PRINT_BACKTRACE" "pids ?app1 = p # rest"
    "length turns = length (threads ?app1)" "\<forall>ls\<in>set turns. one_read ls"
    using assms ids by simp_all
  from print_backtrace_drain [OF this, of ch] obtain effs where
    s: "session (replicate (length turns) {G_IO_IN}) ?ch1 ?app1 = (Watching, ?app1\<lparr>threads := []\<rparr>, effs)"
    and e: "sent effs = map (\<lambda>t. ''pstack_thread '' @ t @ [LF]) ts"
    by auto
  from step s e ids show ?thesis by simp
qed

text \<open>
  C2, as the claim states it: the identifiers come out in the order of the lines of the
  listing. A listing of two threads refutes it: the identifier of the second line is
  the front of the list, because each identifier is prepended and the list is returned
  without being reversed.
\<close>

theorem thread_order_reversed_counterexample:
  "fst (get_thread_ids [''  2 Thread 0x7f (LWP 5)'', ''  1 Thread 0x7e (LWP 4)'']) = [''  1'', ''  2'']"
  by code_simp

text \<open>
  C2, amended. The list returned by \<^verbatim>\<open>get_thread_ids\<close> holds the identifiers of the
  matching lines in the \<^emph>\<open>reverse\<close> of the order of the lines: it is the reverse of
  what the lines yield one by one, put together in listing order. \<^verbatim>\<open>send_thread_backtrace\<close>
  takes the front of the queue, sends the macro call for it and leaves the rest. So,
  from \<^verbatim>\<open>STATE_BACKTRACE\<close>, when the listing and then one turn per further thread
  arrive (each in one read), the session sends one \<^verbatim>\<open>pstack_thread\<close> command per
  identifier, from the last matching line of the listing to the first, and ends with
  an empty queue.
\<close>

theorem thread_ids_reverse_listing_order:
  "fst (get_thread_ids lines) = rev (concat (map (\<lambda>l. fst (get_thread_ids [l])) lines))
   \<and> (\<forall>t ts. threads app = t # ts \<longrightarrow>
        send_thread_backtrace app =
          Inr (app\<lparr>threads := ts\<rparr>, [Send (''pstack_thread '' @ t @ [LF])]))
   \<and> (\<forall>p rest turns ch.
        state app = STATE_BACKTRACE \<and> pids app = p # rest
        \<and> fst (get_thread_ids lines) \<noteq> []
        \<and> Suc (length turns) = length (fst (get_thread_ids lines))
        \<and> one_read lines \<and> (\<forall>ls\<in>set turns. one_read ls) \<longrightarrow>
        (\<exists>effs. session (replicate (Suc (length turns)) {G_IO_IN})
                  (map (\<lambda>ls. Read G_IO_STATUS_NORMAL (turn_bytes ls) None) (lines # turns) @ ch)
                  app =
                (Watching, app\<lparr>threads := [], state := STATE_PRINT_BACKTRACE\<rparr>, effs)
              \<and> sent effs =
                  map (\<lambda>t. ''pstack_thread '' @ t @ [LF])
                    (rev (concat (map (\<lambda>l. fst (get_thread_ids [l])) lines)))))"
proof -
  have one: "rev (fst (get_thread_ids [l])) = fst (get_thread_ids [l])" for l
    by (simp add: get_thread_ids_def split: option.splits prod.splits)
  have order: "fst (get_thread_ids ls) = rev (concat (map (\<lambda>l. fst (get_thread_ids [l])) ls))"
    for ls
  proof (induction ls)
    case Nil
    show ?case by (simp add: get_thread_ids_def)
  next
    case (Cons l ls)
    then show ?case by (simp add: get_thread_ids_Cons [of l ls] one)
  qed
  have pop: "\<forall>t ts. threads app = t # ts \<longrightarrow>
        send_thread_backtrace app =
          Inr (app\<lparr>threads := ts\<rparr>, [Send (''pstack_thread '' @ t @ [LF])])"
    by (simp add: send_thread_backtrace_Cons)
  have drain: "\<exists>effs. session (replicate (Suc (length turns)) {G_IO_IN})
                  (map (\<lambda>ls. Read G_IO_STATUS_NORMAL (turn_bytes ls) None) (lines # turns) @ ch)
                  app =
                (Watching, app\<lparr>threads := [], state := STATE_PRINT_BACKTRACE\<rparr>, effs)
              \<and> sent effs =
                  map (\<lambda>t. ''pstack_thread '' @ t @ [LF])
                    (rev (concat (map (\<lambda>l. fst (get_thread_ids [l])) lines)))"
    if "state app = STATE_BACKTRACE \<and> pids app = p # rest
        \<and> fst (get_thread_ids lines) \<noteq> []
        \<and> Suc (length turns) = length (fst (get_thread_ids lines))
        \<and> one_read lines \<and> (\<forall>ls\<in>set turns. one_read ls)"
    for p rest turns ch
  proof -
    from that have h: "state app = STATE_BACKTRACE" "pids app = p # rest"
      "fst (get_thread_ids lines) \<noteq> []"
      "Suc (length turns) = length (fst (get_thread_ids lines))"
      "one_read lines" "\<forall>ls\<in>set turns. one_read ls"
      by simp_all
    from backtraces_in_queue_order [OF h, of ch] show ?thesis
      by (simp only: order [of lines])
  qed
  from order [of lines] pop drain show ?thesis by blast
qed

theorem thread_ids_reverse_listing_order_witness:
  "fst (get_thread_ids [''* 3 Thread a'', ''no match'', ''  2 Thread b'']) = [''  2'', ''* 3'']
   \<and> send_thread_backtrace
       \<lparr>pids = [222], threads = [''  2'', ''* 3''], reap_try = 0, state = STATE_BACKTRACE\<rparr> =
       Inr (\<lparr>pids = [222], threads = [''* 3''], reap_try = 0, state = STATE_BACKTRACE\<rparr>,
            [Send (''pstack_thread   2'' @ [LF])])
   \<and> (\<exists>effs. session [{G_IO_IN}, {G_IO_IN}]
               [Read G_IO_STATUS_NORMAL
                  (turn_bytes [''* 3 Thread a'', ''no match'', ''  2 Thread b'']) None,
                Read G_IO_STATUS_NORMAL (turn_bytes [''#0  main ()'']) None]
               \<lparr>pids = [222], threads = [''  2'', ''* 3''], reap_try = 0, state = STATE_BACKTRACE\<rparr> =
             (Watching,
              \<lparr>pids = [222], threads = [], reap_try = 0, state = STATE_PRINT_BACKTRACE\<rparr>, effs)
           \<and> sent effs = [''pstack_thread   2'' @ [LF], ''pstack_thread * 3'' @ [LF]])"
proof -
  let ?lines = "[''* 3 Thread a'', ''no match'', ''  2 Thread b'']"
  let ?app = "\<lparr>pids = [222], threads = [''  2'', ''* 3''], reap_try = 0, state = STATE_BACKTRACE\<rparr>"
  have a: "fst (get_thread_ids [''* 3 Thread a'']) = [''* 3'']" by code_simp
  have b: "fst (get_thread_ids [''no match'']) = []" by code_simp
  have c: "fst (get_thread_ids [''  2 Thread b'']) = [''  2'']" by code_simp
  have g: "fst (get_thread_ids ?lines) = [''  2'', ''* 3'']" by code_simp
  have r1: "one_read ?lines"
    by (simp add: one_read_def turn_bytes_def BUF_SIZE_def LF_def NUL_def)
  have r2: "\<forall>ls\<in>set [[''#0  main ()'']]. one_read ls"
    by (simp add: one_read_def turn_bytes_def BUF_SIZE_def LF_def NUL_def)
  note inst = thread_ids_reverse_listing_order [of ?lines ?app]
  from inst have "\<exists>effs. session (replicate (Suc (length [[''#0  main ()'']])) {G_IO_IN})
        (map (\<lambda>ls. Read G_IO_STATUS_NORMAL (turn_bytes ls) None) (?lines # [[''#0  main ()'']]) @ [])
        ?app = (Watching, ?app\<lparr>threads := [], state := STATE_PRINT_BACKTRACE\<rparr>, effs)
      \<and> sent effs = map (\<lambda>t. ''pstack_thread '' @ t @ [LF])
                       (rev (concat (map (\<lambda>l. fst (get_thread_ids [l])) ?lines)))"
    using g r1 r2 by (elim conjE allE [of _ 222] allE [of _ "[]"] allE [of _ "[[''#0  main ()'']]"]) simp
  then have d: "\<exists>effs. session [{G_IO_IN}, {G_IO_IN}]
               [Read G_IO_STATUS_NORMAL (turn_bytes ?lines) None,
                Read G_IO_STATUS_NORMAL (turn_bytes [''#0  main ()'']) None] ?app =
             (Watching,
              \<lparr>pids = [222], threads = [], reap_try = 0, state = STATE_PRINT_BACKTRACE\<rparr>, effs)
           \<and> sent effs = [''pstack_thread   2'' @ [LF], ''pstack_thread * 3'' @ [LF]]"
    by (simp add: a b c eval_nat_numeral)
  from inst d show ?thesis by (simp add: a b c)
qed

section \<open>The pid queue\<close>

lemma read_loop_sends_nothing:
  "read_loop buf ch = Inr (r, printed, ch') \<Longrightarrow> sent printed = []"
proof (induction buf ch rule: read_loop.induct)
  case (1 buf)
  then show ?case by simp
next
  case (2 buf status bytes err rest)
  then show ?case
    by (auto simp: Let_def split: if_splits GIOStatus.splits option.splits)
qed

lemma get_pid_list_loop_order:
  "get_pid_list_loop strtoul errno acc args = (ps, msgs) \<Longrightarrow> ps \<noteq> [] \<Longrightarrow>
     ps = rev acc @ map (\<lambda>a. to_gint (fst (strtoul a))) args
     \<and> (\<forall>a\<in>set args. 0 < to_gint (fst (strtoul a)) \<and> to_gint (fst (strtoul a)) \<le> G_MAXINT)"
proof (induction args arbitrary: errno acc)
  case Nil
  then show ?case by auto
next
  case (Cons a args)
  obtain v endptr stored where st: "strtoul a = (v, endptr, stored)" by (cases "strtoul a")
  let ?errno = "case stored of None \<Rightarrow> errno | Some e \<Rightarrow> e"
  from Cons.prems st have ok: "\<not> (endptr \<noteq> [] \<or> to_gint v \<le> 0 \<or> to_gint v > G_MAXINT \<or> ?errno \<noteq> 0)"
    by (auto simp: Let_def split: if_splits)
  with Cons.prems st have "get_pid_list_loop strtoul ?errno (to_gint v # acc) args = (ps, msgs)"
    by (simp add: Let_def)
  from Cons.IH [OF this Cons.prems(2)] ok st show ?case by auto
qed

lemma switch_delta:
  assumes "state_switch lines p app = Inr (app', effs, lines')" and "pids app = p # rest"
  shows "(in_hand (state app) \<and> in_hand (state app') \<and> pids app' = pids app
            \<and> attach_commands effs = [] \<and> completed_attempts effs = 0)
       \<or> (in_hand (state app) \<and> state app' = STATE_ATTACH \<and> pids app' = rest
            \<and> attach_commands effs = [] \<and> completed_attempts effs = 1)
       \<or> (state app = STATE_ATTACH \<and> state app' = STATE_CHECK_THREADS \<and> pids app' = pids app
            \<and> attach_commands effs = [''attach '' @ format_d p @ [LF]]
            \<and> completed_attempts effs = 0)
       \<or> (\<not> in_hand (state app) \<and> \<not> in_hand (state app') \<and> pids app' = pids app
            \<and> attach_commands effs = [] \<and> completed_attempts effs = 0)"
proof (cases "state app")
  case STATE_START
  with assms show ?thesis
    by (auto simp: state_switch_def send_command_def in_hand_def attach_commands_def
        completed_attempts_def)
next
  case STATE_ATTACH
  with assms show ?thesis
    by (auto simp: state_switch_def send_command_def in_hand_def attach_commands_def
        completed_attempts_def)
next
  case STATE_CHECK_THREADS
  with assms show ?thesis
    by (auto simp: state_switch_def send_command_def in_hand_def attach_commands_def
        completed_attempts_def split: option.splits)
next
  case STATE_BACKTRACE
  with assms show ?thesis
    by (auto simp: state_switch_def send_command_def in_hand_def attach_commands_def
        completed_attempts_def send_thread_backtrace_def Let_def
        split: list.splits prod.splits)
next
  case STATE_PRINT_BACKTRACE
  have pl: "sent (print_lines ls) = []" for ls
    by (induction ls) (simp_all add: print_lines_def)
  from STATE_PRINT_BACKTRACE assms show ?thesis
    by (auto simp: state_switch_def send_command_def in_hand_def attach_commands_def
        completed_attempts_def send_thread_backtrace_def detach_case_def sent_append pl
        split: list.splits)
next
  case STATE_DETACH
  with assms show ?thesis
    by (auto simp: state_switch_def send_command_def in_hand_def attach_commands_def
        completed_attempts_def detach_case_def)
next
  case STATE_DONE
  with assms show ?thesis
    by (auto simp: state_switch_def send_command_def in_hand_def attach_commands_def
        completed_attempts_def)
qed

lemma attach_commands_append:
  "attach_commands (xs @ ys) = attach_commands xs @ attach_commands ys"
  by (simp add: attach_commands_def sent_append)

lemma completed_attempts_append:
  "completed_attempts (xs @ ys) = completed_attempts xs + completed_attempts ys"
  by (simp add: completed_attempts_def sent_append)

lemma silent_effects:
  "sent xs = [] \<Longrightarrow> attach_commands xs = [] \<and> completed_attempts xs = 0"
  by (simp add: attach_commands_def completed_attempts_def)

lemma visiting_silent:
  "visiting ps app effs0 \<Longrightarrow> sent xs = [] \<Longrightarrow> visiting ps app (effs0 @ xs)"
  by (simp add: visiting_def Let_def attach_commands_append completed_attempts_append silent_effects)

lemma visiting_switch:
  assumes v: "visiting ps app effs0"
    and pd: "pids app = p # rest"
    and sw: "state_switch lines p app = Inr (app', effs, lines')"
  shows "visiting ps app' (effs0 @ effs)"
proof -
  let ?j = "completed_attempts effs0"
  let ?cmd = "\<lambda>p. ''attach '' @ format_d p @ [LF]"
  from v pd have dr: "drop ?j ps = p # rest" and le: "?j \<le> length ps"
    by (simp_all add: visiting_def Let_def)
  from dr have lt: "?j < length ps" by (cases "?j < length ps") simp_all
  from dr have nx: "drop (Suc ?j) ps = rest"
    by (metis drop_Suc tl_drop list.sel(3))
  from dr lt have tk: "take (Suc ?j) ps = take ?j ps @ [p]"
    by (metis take_Suc_conv_app_nth hd_drop_conv_nth list.sel(1))
  from switch_delta [OF sw pd] show ?thesis
  proof (elim disjE conjE)
    assume "in_hand (state app)" "in_hand (state app')" "pids app' = pids app"
      "attach_commands effs = []" "completed_attempts effs = 0"
    with v show ?thesis
      by (simp add: visiting_def Let_def attach_commands_append completed_attempts_append)
  next
    assume "in_hand (state app)" "state app' = STATE_ATTACH" "pids app' = rest"
      "attach_commands effs = []" "completed_attempts effs = 1"
    with v lt nx show ?thesis
      by (simp add: visiting_def Let_def attach_commands_append completed_attempts_append
          in_hand_def)
  next
    assume "state app = STATE_ATTACH" "state app' = STATE_CHECK_THREADS" "pids app' = pids app"
      "attach_commands effs = [''attach '' @ format_d p @ [LF]]" "completed_attempts effs = 0"
    with v lt tk show ?thesis
      by (simp add: visiting_def Let_def attach_commands_append completed_attempts_append
          in_hand_def)
  next
    assume "\<not> in_hand (state app)" "\<not> in_hand (state app')" "pids app' = pids app"
      "attach_commands effs = []" "completed_attempts effs = 0"
    with v show ?thesis
      by (simp add: visiting_def Let_def attach_commands_append completed_attempts_append)
  qed
qed

lemma visiting_done:
  assumes v: "visiting ps app effs0" and pd: "pids app = []"
  shows "visiting ps (app\<lparr>state := STATE_DONE\<rparr>) effs0"
proof -
  from v pd have "\<not> completed_attempts effs0 < length ps"
    by (simp add: visiting_def Let_def)
  with v show ?thesis
    by (auto simp: visiting_def Let_def in_hand_def split: if_splits)
qed

lemma visiting_step:
  assumes v: "visiting ps app effs0"
    and st: "process_gdb_output c ch app = Inr (b, app', effs, ch')"
  shows "visiting ps app' (effs0 @ effs)"
proof (cases "G_IO_ERR \<in> c \<or> G_IO_HUP \<in> c")
  case True
  with st v show ?thesis by (auto simp: process_gdb_output_def)
next
  case False
  obtain res where rd: "read_lines ch = res" by simp
  show ?thesis
  proof (cases res)
    case (Inl f)
    with st rd False show ?thesis
      by (auto simp: process_gdb_output_def split: list.splits)
  next
    case (Inr triple)
    then obtain r printed ch1 where rr: "read_lines ch = Inr (r, printed, ch1)"
      using rd by (cases triple) auto
    then have quiet: "sent printed = []"
      unfolding read_lines_def by (rule read_loop_sends_nothing)
    show ?thesis
    proof (cases "pids app")
      case Nil
      note vd = visiting_done [OF v Nil]
      show ?thesis
      proof (cases r)
        case None
        with st rr False Nil have "app' = app\<lparr>state := STATE_DONE\<rparr>" "effs = printed"
          by (auto simp: process_gdb_output_def)
        with vd quiet show ?thesis by (simp add: visiting_silent)
      next
        case (Some lines)
        with st rr False Nil have a: "app' = app\<lparr>state := STATE_DONE\<rparr>"
          and e: "effs = printed @ [Send (''quit'' @ [LF])]"
          by (auto simp: process_gdb_output_def state_switch_def send_command_def)
        from vd quiet have "visiting ps (app\<lparr>state := STATE_DONE\<rparr>) (effs0 @ printed)"
          by (simp add: visiting_silent)
        moreover have "attach_commands [Send (''quit'' @ [LF])] = []"
          and "completed_attempts [Send (''quit'' @ [LF])] = 0"
          by (simp_all add: attach_commands_def completed_attempts_def)
        ultimately show ?thesis unfolding a e
          by (simp add: visiting_def Let_def attach_commands_append completed_attempts_append
              in_hand_def)
      qed
    next
      case (Cons p rest)
      show ?thesis
      proof (cases r)
        case None
        with st rr False Cons have "app' = app" "effs = printed"
          by (auto simp: process_gdb_output_def)
        with v quiet show ?thesis by (simp add: visiting_silent)
      next
        case (Some lines)
        with st rr False Cons obtain e2 l2 where
          sw: "state_switch lines p app = Inr (app', e2, l2)" and e: "effs = printed @ e2"
          by (auto simp: process_gdb_output_def split: sum.splits)
        from v quiet have "visiting ps app (effs0 @ printed)" by (simp add: visiting_silent)
        from visiting_switch [OF this Cons sw] e show ?thesis by simp
      qed
    qed
  qed
qed

lemma visiting_session:
  "visiting ps app effs0 \<Longrightarrow> session cs ch app = (out, app', effs) \<Longrightarrow>
     visiting ps app' (effs0 @ effs)"
proof (induction cs arbitrary: ch app effs0 effs)
  case Nil
  then show ?case by simp
next
  case (Cons c cs)
  show ?case
  proof (cases "process_gdb_output c ch app")
    case (Inl f)
    with Cons.prems show ?thesis by simp
  next
    case (Inr quad)
    then obtain b app1 e1 ch1 where
      st: "process_gdb_output c ch app = Inr (b, app1, e1, ch1)"
      by (cases quad) auto
    note v1 = visiting_step [OF Cons.prems(1) st]
    show ?thesis
    proof (cases b)
      case False
      with Cons.prems(2) st v1 show ?thesis by simp
    next
      case True
      with Cons.prems(2) st obtain e2 where
        s2: "session cs ch1 app1 = (out, app', e2)" and e: "effs = e1 @ e2"
        by (auto split: prod.splits)
      from Cons.IH [OF v1 s2] e show ?thesis by simp
    qed
  qed
qed

lemma visiting_main_app: "visiting ps (main_app ps) []"
  by (simp add: visiting_def main_app_def attach_commands_def completed_attempts_def in_hand_def)

lemma switch_pids:
  assumes "state_switch lines p app = Inr (app', effs, lines')" and "pids app = p # rest"
  shows "pids app' =
     (if (state app = STATE_CHECK_THREADS \<and> attach_ok lines \<noteq> None)
         \<or> state app = STATE_DETACH
         \<or> (state app = STATE_PRINT_BACKTRACE \<and> threads app = [])
      then rest else p # rest)"
  using assms
  by (cases "state app")
    (auto simp: state_switch_def detach_case_def send_thread_backtrace_def Let_def
      split: option.splits list.splits prod.splits)

lemma failed_attach_then_next:
  assumes c: "G_IO_ERR \<notin> c" "G_IO_HUP \<notin> c"
    and st: "state app = STATE_CHECK_THREADS"
    and pd: "pids app = p # q # rest"
    and r1: "read_lines ch = Inr (Some lines, printed, ch1)"
    and ao: "attach_ok lines = Some message"
    and r2: "read_lines ch1 = Inr (Some lines2, printed2, ch2)"
  shows "session [c, c] ch app =
     (Watching, app\<lparr>pids := q # rest, state := STATE_CHECK_THREADS\<rparr>,
      printed @ [PrintErr (''Skipping pid '' @ format_d p @ '': '' @ message @ [LF]),
                 Send (''p 0'' @ [LF])]
        @ printed2 @ [Send (''attach '' @ format_d q @ [LF])])"
proof -
  let ?app1 = "app\<lparr>pids := q # rest, state := STATE_ATTACH\<rparr>"
  have s1: "process_gdb_output c ch app =
      Inr (True, ?app1,
           printed @ [PrintErr (''Skipping pid '' @ format_d p @ '': '' @ message @ [LF]),
                      Send (''p 0'' @ [LF])], ch1)"
    using st pd ao
    by (simp add: process_step [OF c pd r1] state_switch_def send_command_def)
  have pd1: "pids ?app1 = q # rest" by simp
  have s2: "process_gdb_output c ch1 ?app1 =
      Inr (True, app\<lparr>pids := q # rest, state := STATE_CHECK_THREADS\<rparr>,
           printed2 @ [Send (''attach '' @ format_d q @ [LF])], ch2)"
    by (simp add: process_step [OF c pd1 r2] state_switch_def send_command_def)
  show ?thesis by (simp add: s1 s2)
qed

lemma detach_then_next:
  assumes c: "G_IO_ERR \<notin> c" "G_IO_HUP \<notin> c"
    and st: "state app = STATE_DETACH \<or> (state app = STATE_PRINT_BACKTRACE \<and> threads app = [])"
    and pd: "pids app = p # q # rest"
    and r1: "read_lines ch = Inr (Some lines, printed, ch1)"
    and r2: "read_lines ch1 = Inr (Some lines2, printed2, ch2)"
  shows "session [c, c] ch app =
     (Watching, app\<lparr>threads := [], pids := q # rest, state := STATE_CHECK_THREADS\<rparr>,
      printed @ (if state app = STATE_PRINT_BACKTRACE then print_lines lines else [])
        @ [Send (''detach'' @ [LF])]
        @ printed2 @ [Send (''attach '' @ format_d q @ [LF])])"
proof -
  let ?app1 = "app\<lparr>threads := [], pids := q # rest, state := STATE_ATTACH\<rparr>"
  have s1: "process_gdb_output c ch app =
      Inr (True, ?app1,
           printed @ (if state app = STATE_PRINT_BACKTRACE then print_lines lines else [])
             @ [Send (''detach'' @ [LF])], ch1)"
    using st pd
    by (auto simp: process_step [OF c pd r1] state_switch_def detach_case_def send_command_def)
  have pd1: "pids ?app1 = q # rest" by simp
  have s2: "process_gdb_output c ch1 ?app1 =
      Inr (True, app\<lparr>threads := [], pids := q # rest, state := STATE_CHECK_THREADS\<rparr>,
           printed2 @ [Send (''attach '' @ format_d q @ [LF])], ch2)"
    by (simp add: process_step [OF c pd1 r2] state_switch_def send_command_def)
  show ?thesis by (simp add: s1 s2)
qed

lemma session_no_null_deref:
  "session cs ch app = (out, app', effs) \<Longrightarrow> out \<noteq> Faulted NullDeref"
proof (induction cs arbitrary: ch app effs)
  case Nil
  then show ?case by auto
next
  case (Cons c cs)
  show ?case
  proof (cases "process_gdb_output c ch app")
    case (Inl f)
    with process_gdb_output_no_null_deref [of c ch app] have "f \<noteq> NullDeref" by auto
    with Inl Cons.prems show ?thesis by auto
  next
    case (Inr quad)
    then obtain b app1 e1 ch1 where
      st: "process_gdb_output c ch app = Inr (b, app1, e1, ch1)"
      by (cases quad) auto
    show ?thesis
    proof (cases b)
      case False
      with Cons.prems st show ?thesis by auto
    next
      case True
      with Cons.prems st obtain e2 where "session cs ch1 app1 = (out, app', e2)"
        by (auto split: prod.splits)
      then show ?thesis by (rule Cons.IH)
    qed
  qed
qed

text \<open>
  C1. Let \<^verbatim>\<open>get_pid_list\<close> accept the command line and give the non-empty list
  \<open>ps\<close>, and let the watch be dispatched any number of times, on any channel, from the
  \<^verbatim>\<open>App\<close> that \<^verbatim>\<open>main\<close> sets up. Then:
  \<^item> \<open>ps\<close> holds the converted arguments in command-line order;
  \<^item> the session never stops on a null pointer: no handler takes the front of an empty
    queue;
  \<^item> with \<open>j\<close> the number of attach attempts completed so far (a \<^verbatim>\<open>detach\<close> or a
    flush \<^verbatim>\<open>p 0\<close> sent), the queue is \<open>ps\<close> without its first \<open>j\<close> elements, and the
    \<^verbatim>\<open>attach\<close> commands sent so far are those of the first \<open>j\<close> targets of \<open>ps\<close>, in
    order and once each, followed by that of target \<open>j + 1\<close> when one is in hand;
  \<^item> with a target at the front of the queue every handler returns, and it removes
    that front exactly in the attach-failure branch of \<^verbatim>\<open>STATE_CHECK_THREADS\<close> and in
    the detach step (\<^verbatim>\<open>STATE_DETACH\<close>, or \<^verbatim>\<open>STATE_PRINT_BACKTRACE\<close> with no thread
    left), and leaves the queue alone otherwise;
  \<^item> after a failed attach to \<open>p\<close> with \<open>q\<close> next in the queue, the flush command is
    sent, \<open>p\<close> is gone and the following turn sends \<^verbatim>\<open>attach q\<close>;
  \<^item> at the detach step for \<open>p\<close> with \<open>q\<close> next in the queue, \<^verbatim>\<open>detach\<close> is sent,
    \<open>p\<close> is gone and the following turn sends \<^verbatim>\<open>attach q\<close>.
\<close>

theorem pid_queue_front_to_back:
  assumes "get_pid_list strtoul errno argv = (ps, msgs)" and "ps \<noteq> []"
    and "session conds ch (main_app ps) = (out, app', effs)"
  shows "ps = map (\<lambda>a. to_gint (fst (strtoul a))) (drop 1 argv)
    \<and> out \<noteq> Faulted NullDeref
    \<and> (let j = length (filter (\<lambda>c. c = ''detach'' @ [LF] \<or> c = ''p 0'' @ [LF]) (sent effs));
           k = (if in_hand (state app') then Suc j else j)
       in pids app' = drop j ps \<and> k \<le> length ps
          \<and> filter (prefix ''attach '') (sent effs) =
              map (\<lambda>p. ''attach '' @ format_d p @ [LF]) (take k ps))
    \<and> (\<forall>lines p rest app.
          pids app = p # rest \<longrightarrow>
          (\<exists>a e l. state_switch lines p app = Inr (a, e, l)
             \<and> pids a =
                 (if (state app = STATE_CHECK_THREADS \<and> attach_ok lines \<noteq> None)
                     \<or> state app = STATE_DETACH
                     \<or> (state app = STATE_PRINT_BACKTRACE \<and> threads app = [])
                  then rest else p # rest)))
    \<and> (\<forall>c ch lines printed ch1 lines2 printed2 ch2 app p q rest message.
          G_IO_ERR \<notin> c \<and> G_IO_HUP \<notin> c \<and> state app = STATE_CHECK_THREADS
          \<and> pids app = p # q # rest
          \<and> read_lines ch = Inr (Some lines, printed, ch1) \<and> attach_ok lines = Some message
          \<and> read_lines ch1 = Inr (Some lines2, printed2, ch2) \<longrightarrow>
          session [c, c] ch app =
            (Watching, app\<lparr>pids := q # rest, state := STATE_CHECK_THREADS\<rparr>,
             printed @ [PrintErr (''Skipping pid '' @ format_d p @ '': '' @ message @ [LF]),
                        Send (''p 0'' @ [LF])]
               @ printed2 @ [Send (''attach '' @ format_d q @ [LF])]))
    \<and> (\<forall>c ch lines printed ch1 lines2 printed2 ch2 app p q rest.
          G_IO_ERR \<notin> c \<and> G_IO_HUP \<notin> c
          \<and> (state app = STATE_DETACH \<or> (state app = STATE_PRINT_BACKTRACE \<and> threads app = []))
          \<and> pids app = p # q # rest
          \<and> read_lines ch = Inr (Some lines, printed, ch1)
          \<and> read_lines ch1 = Inr (Some lines2, printed2, ch2) \<longrightarrow>
          session [c, c] ch app =
            (Watching, app\<lparr>threads := [], pids := q # rest, state := STATE_CHECK_THREADS\<rparr>,
             printed @ (if state app = STATE_PRINT_BACKTRACE then print_lines lines else [])
               @ [Send (''detach'' @ [LF])]
               @ printed2 @ [Send (''attach '' @ format_d q @ [LF])]))"
proof (intro conjI)
  from assms(1,2) have "get_pid_list_loop strtoul errno [] (drop 1 argv) = (ps, msgs)"
    by (auto simp: get_pid_list_def split: if_splits)
  from get_pid_list_loop_order [OF this assms(2)]
  show "ps = map (\<lambda>a. to_gint (fst (strtoul a))) (drop 1 argv)" by simp
next
  from assms(3) show "out \<noteq> Faulted NullDeref" by (rule session_no_null_deref)
next
  from visiting_session [OF visiting_main_app assms(3)] have v: "visiting ps app' effs" by simp
  then show "let j = length (filter (\<lambda>c. c = ''detach'' @ [LF] \<or> c = ''p 0'' @ [LF]) (sent effs));
           k = (if in_hand (state app') then Suc j else j)
       in pids app' = drop j ps \<and> k \<le> length ps
          \<and> filter (prefix ''attach '') (sent effs) =
              map (\<lambda>p. ''attach '' @ format_d p @ [LF]) (take k ps)"
    unfolding visiting_def attach_commands_def completed_attempts_def Let_def
    by (auto split: if_splits)
next
  show "\<forall>lines p rest app.
          pids app = p # rest \<longrightarrow>
          (\<exists>a e l. state_switch lines p app = Inr (a, e, l)
             \<and> pids a =
                 (if (state app = STATE_CHECK_THREADS \<and> attach_ok lines \<noteq> None)
                     \<or> state app = STATE_DETACH
                     \<or> (state app = STATE_PRINT_BACKTRACE \<and> threads app = [])
                  then rest else p # rest))"
  proof (intro allI impI)
    fix lines p rest and app :: App
    assume pd: "pids app = p # rest"
    from state_switch_returns [OF pd, of lines] obtain a e l where
      sw: "state_switch lines p app = Inr (a, e, l)" by blast
    from switch_pids [OF sw pd] sw
    show "\<exists>a e l. state_switch lines p app = Inr (a, e, l)
             \<and> pids a =
                 (if (state app = STATE_CHECK_THREADS \<and> attach_ok lines \<noteq> None)
                     \<or> state app = STATE_DETACH
                     \<or> (state app = STATE_PRINT_BACKTRACE \<and> threads app = [])
                  then rest else p # rest)"
      by blast
  qed
next
  show "\<forall>c ch lines printed ch1 lines2 printed2 ch2 app p q rest message.
          G_IO_ERR \<notin> c \<and> G_IO_HUP \<notin> c \<and> state app = STATE_CHECK_THREADS
          \<and> pids app = p # q # rest
          \<and> read_lines ch = Inr (Some lines, printed, ch1) \<and> attach_ok lines = Some message
          \<and> read_lines ch1 = Inr (Some lines2, printed2, ch2) \<longrightarrow>
          session [c, c] ch app =
            (Watching, app\<lparr>pids := q # rest, state := STATE_CHECK_THREADS\<rparr>,
             printed @ [PrintErr (''Skipping pid '' @ format_d p @ '': '' @ message @ [LF]),
                        Send (''p 0'' @ [LF])]
               @ printed2 @ [Send (''attach '' @ format_d q @ [LF])])"
    using failed_attach_then_next by blast
next
  show "\<forall>c ch lines printed ch1 lines2 printed2 ch2 app p q rest.
          G_IO_ERR \<notin> c \<and> G_IO_HUP \<notin> c
          \<and> (state app = STATE_DETACH \<or> (state app = STATE_PRINT_BACKTRACE \<and> threads app = []))
          \<and> pids app = p # q # rest
          \<and> read_lines ch = Inr (Some lines, printed, ch1)
          \<and> read_lines ch1 = Inr (Some lines2, printed2, ch2) \<longrightarrow>
          session [c, c] ch app =
            (Watching, app\<lparr>threads := [], pids := q # rest, state := STATE_CHECK_THREADS\<rparr>,
             printed @ (if state app = STATE_PRINT_BACKTRACE then print_lines lines else [])
               @ [Send (''detach'' @ [LF])]
               @ printed2 @ [Send (''attach '' @ format_d q @ [LF])])"
  proof (intro allI impI)
    fix c ch lines printed ch1 lines2 printed2 ch2 p q rest and app :: App
    assume h: "G_IO_ERR \<notin> c \<and> G_IO_HUP \<notin> c
          \<and> (state app = STATE_DETACH \<or> (state app = STATE_PRINT_BACKTRACE \<and> threads app = []))
          \<and> pids app = p # q # rest
          \<and> read_lines ch = Inr (Some lines, printed, ch1)
          \<and> read_lines ch1 = Inr (Some lines2, printed2, ch2)"
    then have "G_IO_ERR \<notin> c" "G_IO_HUP \<notin> c"
      "state app = STATE_DETACH \<or> (state app = STATE_PRINT_BACKTRACE \<and> threads app = [])"
      "pids app = p # q # rest" "read_lines ch = Inr (Some lines, printed, ch1)"
      "read_lines ch1 = Inr (Some lines2, printed2, ch2)"
      by simp_all
    then show "session [c, c] ch app =
            (Watching, app\<lparr>threads := [], pids := q # rest, state := STATE_CHECK_THREADS\<rparr>,
             printed @ (if state app = STATE_PRINT_BACKTRACE then print_lines lines else [])
               @ [Send (''detach'' @ [LF])]
               @ printed2 @ [Send (''attach '' @ format_d q @ [LF])])"
      by (rule detach_then_next)
  qed
qed

theorem pid_queue_front_to_back_witness:
  "get_pid_list strtoul10 0 [''pstack'', ''111'', ''222''] = ([111, 222], [])
   \<and> session [{G_IO_IN}, {G_IO_IN}, {G_IO_IN}, {G_IO_IN}, {G_IO_IN}, {G_IO_IN}, {G_IO_IN},
              {G_IO_IN}, {G_IO_IN}]
       [Read G_IO_STATUS_NORMAL ''(gdb) '' None,
        Read G_IO_STATUS_NORMAL ''(gdb) '' None,
        Read G_IO_STATUS_NORMAL (''ptrace: Operation not permitted.'' @ [LF] @ ''(gdb) '') None,
        Read G_IO_STATUS_NORMAL (''$1 = 0'' @ [LF] @ ''(gdb) '') None,
        Read G_IO_STATUS_NORMAL (''Attaching to process 222'' @ [LF] @ ''(gdb) '') None,
        Read G_IO_STATUS_NORMAL (''  2 Thread 0x7f (LWP 5)'' @ [LF] @ ''  1 Thread 0x7e (LWP 4)''
                                  @ [LF] @ ''(gdb) '') None,
        Read G_IO_STATUS_NORMAL (''#0  f ()'' @ [LF] @ ''#1  main ()'' @ [LF] @ ''(gdb) '') None,
        Read G_IO_STATUS_NORMAL (''#0  g ()'' @ [LF] @ ''#1  start ()'' @ [LF] @ ''(gdb) '') None,
        Read G_IO_STATUS_NORMAL (''Detaching from process 222'' @ [LF] @ ''(gdb) '') None]
       (main_app [111, 222]) =
     (Watching, \<lparr>pids = [], threads = [], reap_try = 0, state = STATE_DONE\<rparr>,
      [Send (''define pstack_thread'' @ [LF] @ ''thread $arg0'' @ [LF] @ ''backtrace'' @ [LF]
               @ ''end'' @ [LF] @ [LF]),
       Send (''attach 111'' @ [LF]),
       PrintErr (''Skipping pid 111: ptrace: Operation not permitted.'' @ [LF]),
       Send (''p 0'' @ [LF]),
       Send (''attach 222'' @ [LF]),
       Send (''info threads'' @ [LF]),
       Print (''Backtrace for pid 222'' @ [LF]),
       Send (''pstack_thread   1'' @ [LF]),
       Print (''#0  f ()'' @ [LF]), Print (''#1  main ()'' @ [LF]),
       Send (''pstack_thread   2'' @ [LF]),
       Print (''#0  g ()'' @ [LF]), Print (''#1  start ()'' @ [LF]),
       Send (''detach'' @ [LF]),
       Send (''quit'' @ [LF])])
   \<and> [111, 222] = map (\<lambda>a. to_gint (fst (strtoul10 a))) (drop 1 [''pstack'', ''111'', ''222''])
   \<and> map (\<lambda>p. ''attach '' @ format_d p @ [LF]) (take 2 [111, 222]) =
       [''attach 111'' @ [LF], ''attach 222'' @ [LF]]
   \<and> (\<exists>a e l. state_switch [''Detaching''] 222
                 \<lparr>pids = [222], threads = [], reap_try = 0, state = STATE_DETACH\<rparr> = Inr (a, e, l)
               \<and> pids a = [])"
proof -
  have h1: "get_pid_list strtoul10 0 [''pstack'', ''111'', ''222''] = ([111, 222], [])"
    by (simp add: get_pid_list_def strtoul10_def isspace_def g_ascii_isdigit_def to_gint_def
        G_MAXINT_def)
  have h2: "[111, 222] \<noteq> ([] :: int list)" by simp
  have h3: "session [{G_IO_IN}, {G_IO_IN}, {G_IO_IN}, {G_IO_IN}, {G_IO_IN}, {G_IO_IN}, {G_IO_IN},
              {G_IO_IN}, {G_IO_IN}]
       [Read G_IO_STATUS_NORMAL ''(gdb) '' None,
        Read G_IO_STATUS_NORMAL ''(gdb) '' None,
        Read G_IO_STATUS_NORMAL (''ptrace: Operation not permitted.'' @ [LF] @ ''(gdb) '') None,
        Read G_IO_STATUS_NORMAL (''$1 = 0'' @ [LF] @ ''(gdb) '') None,
        Read G_IO_STATUS_NORMAL (''Attaching to process 222'' @ [LF] @ ''(gdb) '') None,
        Read G_IO_STATUS_NORMAL (''  2 Thread 0x7f (LWP 5)'' @ [LF] @ ''  1 Thread 0x7e (LWP 4)''
                                  @ [LF] @ ''(gdb) '') None,
        Read G_IO_STATUS_NORMAL (''#0  f ()'' @ [LF] @ ''#1  main ()'' @ [LF] @ ''(gdb) '') None,
        Read G_IO_STATUS_NORMAL (''#0  g ()'' @ [LF] @ ''#1  start ()'' @ [LF] @ ''(gdb) '') None,
        Read G_IO_STATUS_NORMAL (''Detaching from process 222'' @ [LF] @ ''(gdb) '') None]
       (main_app [111, 222]) =
     (Watching, \<lparr>pids = [], threads = [], reap_try = 0, state = STATE_DONE\<rparr>,
      [Send (''define pstack_thread'' @ [LF] @ ''thread $arg0'' @ [LF] @ ''backtrace'' @ [LF]
               @ ''end'' @ [LF] @ [LF]),
       Send (''attach 111'' @ [LF]),
       PrintErr (''Skipping pid 111: ptrace: Operation not permitted.'' @ [LF]),
       Send (''p 0'' @ [LF]),
       Send (''attach 222'' @ [LF]),
       Send (''info threads'' @ [LF]),
       Print (''Backtrace for pid 222'' @ [LF]),
       Send (''pstack_thread   1'' @ [LF]),
       Print (''#0  f ()'' @ [LF]), Print (''#1  main ()'' @ [LF]),
       Send (''pstack_thread   2'' @ [LF]),
       Print (''#0  g ()'' @ [LF]), Print (''#1  start ()'' @ [LF]),
       Send (''detach'' @ [LF]),
       Send (''quit'' @ [LF])])"
    by code_simp
  note inst = pid_queue_front_to_back [OF h1 h2 h3]
  have pd: "pids \<lparr>pids = [222], threads = [], reap_try = 0, state = STATE_DETACH\<rparr> = [222]"
    by simp
  from inst have sw: "\<exists>a e l. state_switch [''Detaching''] 222
                 \<lparr>pids = [222], threads = [], reap_try = 0, state = STATE_DETACH\<rparr> = Inr (a, e, l)
               \<and> pids a = []"
    using pd by (elim conjE allE [of _ "[''Detaching'']"] allE [of _ 222] allE [of _ "[]"]
        allE [of _ "\<lparr>pids = [222], threads = [], reap_try = 0, state = STATE_DETACH\<rparr>"]) simp
  from inst h1 h3 sw show ?thesis
    by (simp add: in_hand_def format_d_111 format_d_222 eval_nat_numeral)
qed

end
